theory Spec2Isabelle
  imports Main "HOL-Library.AList"
begin

section \<open>Python values and exceptions\<close>

text \<open>
  The exceptions the modelled code can raise. \<open>OtherError\<close> stands for any exception
  of an external call that is not an \<open>OSError\<close>.
\<close>

datatype py_error = OSError | AttributeError | KeyError | NameError | OtherError

section \<open>SharingManager (lib/sharing.py)\<close>

text \<open>
  The objects handed out by libdaap (a server, an mDNS registration) are opaque handles.
  The manager's attributes \<open>mdns_ref\<close>, \<open>server\<close> and \<open>thread\<close> do not exist until they
  are assigned and are removed again by \<open>del\<close>: an absent attribute is \<open>None\<close>,
  and reading it raises \<open>AttributeError\<close>. Every call that leaves the process is
  recorded in \<open>trace\<close>, in the order the calls are made.
\<close>

datatype thread_obj = Thread string

datatype event =
    Make_daap_server string
  | Thread_start
  | Install_mdns string
  | Uninstall_mdns nat
  | Server_shutdown nat
  | Thread_join

record manager =
  sharing :: bool
  discoverable :: bool
  mdns_ref :: "nat option"
  server :: "nat option"
  thread :: "thread_obj option"
  trace :: "event list"

text \<open>
  What one call of \<open>twiddle_sharing\<close> meets outside the manager: the three configuration
  values it reads, and the outcome of each external call (each is made at most once per
  call of \<open>twiddle_sharing\<close>).
\<close>

record world =
  SHARE_MEDIA :: bool
  SHARE_DISCOVERABLE :: bool
  SHARE_NAME :: string
  make_daap_server :: "py_error + nat"
  thread_start :: "py_error option"
  install_mdns :: "py_error + nat"
  uninstall_mdns :: "py_error option"
  server_shutdown :: "py_error option"
  thread_join :: "py_error option"

text \<open>\<open>__init__\<close>, before its call of \<open>twiddle_sharing\<close>.\<close>

definition init_manager :: manager where
  "init_manager = \<lparr>sharing = False, discoverable = False, mdns_ref = None,
     server = None, thread = None, trace = []\<rparr>"

definition enable_discover :: "world \<Rightarrow> manager \<Rightarrow> py_error option \<times> manager" where
  "enable_discover w s =
     (let name = SHARE_NAME w;
          s1 = s\<lparr>trace := trace s @ [Install_mdns name]\<rparr>
      in case install_mdns w of
           Inl e \<Rightarrow> (Some e, s1)
         | Inr r \<Rightarrow> (None, s1\<lparr>mdns_ref := Some r, discoverable := True\<rparr>))"

definition disable_discover :: "world \<Rightarrow> manager \<Rightarrow> py_error option \<times> manager" where
  "disable_discover w s =
     (let s1 = s\<lparr>discoverable := False\<rparr>
      in case mdns_ref s1 of
           None \<Rightarrow> (Some AttributeError, s1)
         | Some r \<Rightarrow>
             (let s2 = s1\<lparr>trace := trace s1 @ [Uninstall_mdns r]\<rparr>
              in case uninstall_mdns w of
                   Some e \<Rightarrow> (Some e, s2)
                 | None \<Rightarrow> (None, s2\<lparr>mdns_ref := None\<rparr>)))"

text \<open>The \<open>except OSError\<close> clause of \<open>enable_sharing\<close> and the \<open>return\<close> after it.\<close>

definition enable_sharing_except :: "py_error \<Rightarrow> manager \<Rightarrow> (py_error + bool) \<times> manager" where
  "enable_sharing_except e s =
     (if e = OSError then (let s1 = s\<lparr>sharing := False\<rparr> in (Inr (sharing s1), s1))
      else (Inl e, s))"

definition enable_sharing :: "world \<Rightarrow> manager \<Rightarrow> (py_error + bool) \<times> manager" where
  "enable_sharing w s =
     (let name = SHARE_NAME w;
          s1 = s\<lparr>trace := trace s @ [Make_daap_server name]\<rparr>
      in case make_daap_server w of
           Inl e \<Rightarrow> enable_sharing_except e s1
         | Inr srv \<Rightarrow>
             (let s2 = s1\<lparr>server := Some srv\<rparr>;
                  s3 = s2\<lparr>thread := Some (Thread ''DAAP Server Thread'')\<rparr>;
                  s4 = s3\<lparr>trace := trace s3 @ [Thread_start]\<rparr>
              in case thread_start w of
                   Some e \<Rightarrow> enable_sharing_except e s4
                 | None \<Rightarrow> (let s5 = s4\<lparr>sharing := True\<rparr> in (Inr (sharing s5), s5))))"

definition disable_sharing :: "world \<Rightarrow> manager \<Rightarrow> py_error option \<times> manager" where
  "disable_sharing w s =
     (let s1 = s\<lparr>sharing := False\<rparr>
      in case server s1 of
           None \<Rightarrow> (Some AttributeError, s1)
         | Some srv \<Rightarrow>
             (let s2 = s1\<lparr>trace := trace s1 @ [Server_shutdown srv]\<rparr>
              in case server_shutdown w of
                   Some e \<Rightarrow> (Some e, s2)
                 | None \<Rightarrow>
                     (case thread s2 of
                        None \<Rightarrow> (Some AttributeError, s2)
                      | Some t \<Rightarrow>
                          (let s3 = s2\<lparr>trace := trace s2 @ [Thread_join]\<rparr>
                           in case thread_join w of
                                Some e \<Rightarrow> (Some e, s3)
                              | None \<Rightarrow> (None, s3\<lparr>thread := None, server := None\<rparr>)))))"

text \<open>
  The second half of \<open>twiddle_sharing\<close>, from \<open>if not self.sharing: return\<close> on.
\<close>

definition twiddle_discoverable :: "world \<Rightarrow> manager \<Rightarrow> py_error option \<times> manager" where
  "twiddle_discoverable w s =
     (if \<not> sharing s then (None, s)
      else if SHARE_DISCOVERABLE w \<noteq> discoverable s then
        (if SHARE_DISCOVERABLE w then enable_discover w s else disable_discover w s)
      else (None, s))"

definition twiddle_sharing :: "world \<Rightarrow> manager \<Rightarrow> py_error option \<times> manager" where
  "twiddle_sharing w s =
     (if SHARE_MEDIA w \<noteq> sharing s then
        (if SHARE_MEDIA w then
           (case enable_sharing w s of
              (Inl e, s1) \<Rightarrow> (Some e, s1)
            | (Inr ok, s1) \<Rightarrow> if \<not> ok then (None, s1) else twiddle_discoverable w s1)
         else
           (case disable_discover w s of
              (Some e, s1) \<Rightarrow> (Some e, s1)
            | (None, s1) \<Rightarrow>
                (case disable_sharing w s1 of
                   (Some e, s2) \<Rightarrow> (Some e, s2)
                 | (None, s2) \<Rightarrow> twiddle_discoverable w s2)))
      else twiddle_discoverable w s)"

text \<open>
  The states a SharingManager can be in: the constructor's, and from there every state
  a call of \<open>twiddle_sharing\<close> (from the constructor or from \<open>on_config_changed\<close>) ends
  in, whether it returns or raises, for any configuration and any outcome of the
  external calls.
\<close>

inductive reachable :: "manager \<Rightarrow> bool" where
  reachable_init: "reachable init_manager"
| reachable_twiddle: "reachable s \<Longrightarrow> reachable (snd (twiddle_sharing w s))"

definition is_mdns_event :: "event \<Rightarrow> bool" where
  "is_mdns_event ev = (case ev of Install_mdns n \<Rightarrow> True | Uninstall_mdns r \<Rightarrow> True | _ \<Rightarrow> False)"

text \<open>A world in which sharing is switched off and every external call succeeds.\<close>

definition world_off :: world where
  "world_off = \<lparr>SHARE_MEDIA = False, SHARE_DISCOVERABLE = False, SHARE_NAME = ''miro'',
     make_daap_server = Inr 7, thread_start = None, install_mdns = Inr 3,
     uninstall_mdns = None, server_shutdown = None, thread_join = None\<rparr>"

text \<open>Sharing and discovery both wanted, every external call succeeds.\<close>

definition world_on :: world where
  "world_on = world_off\<lparr>SHARE_MEDIA := True, SHARE_DISCOVERABLE := True\<rparr>"

text \<open>Sharing wanted, but \<open>libdaap.make_daap_server\<close> raises \<open>OSError\<close>.\<close>

definition world_bind_fails :: world where
  "world_bind_fails = world_on\<lparr>make_daap_server := Inl OSError\<rparr>"

text \<open>
  What holds of every state the manager can be in: discovery is on only while sharing is
  on and the registration handle exists, and while sharing is on the server and thread
  attributes exist.
\<close>

definition manager_inv :: "manager \<Rightarrow> bool" where
  "manager_inv s = ((discoverable s \<longrightarrow> sharing s \<and> mdns_ref s \<noteq> None) \<and>
     (sharing s \<longrightarrow> server s \<noteq> None \<and> thread s \<noteq> None))"

text \<open>The state after a first \<open>twiddle_sharing\<close> in \<open>world_on\<close>.\<close>

definition manager_on :: manager where
  "manager_on = \<lparr>sharing = True, discoverable = True, mdns_ref = Some 3, server = Some 7,
     thread = Some (Thread ''DAAP Server Thread''),
     trace = [Make_daap_server ''miro'', Thread_start, Install_mdns ''miro'']\<rparr>"

section \<open>SharingManagerBackend (lib/sharing.py)\<close>

subsection \<open>Python values\<close>

text \<open>
  The two libdaap constants the translation uses are kept symbolic. A value stored in a
  catalog entry or sent on the wire is \<open>None\<close>, an integer, a byte string (\<open>str\<close>), a
  \<open>unicode\<close> string (its code points) or one of the constants.
\<close>

datatype libdaap_const = DAAP_MEDIAKIND_AUDIO | DAAP_MEDIAKIND_VIDEO

datatype pyval = PyNone | PyInt int | PyStr string | PyUnicode "nat list" | PyConst libdaap_const

text \<open>\<open>u.encode('utf-8')\<close> on a \<open>unicode\<close> string, code point by code point.\<close>

definition utf8_char :: "nat \<Rightarrow> nat list" where
  "utf8_char c =
     (if c < 128 then [c]
      else if c < 2048 then [192 + c div 64, 128 + c mod 64]
      else if c < 65536 then [224 + c div 4096, 128 + (c div 64) mod 64, 128 + c mod 64]
      else [240 + c div 262144, 128 + (c div 4096) mod 64, 128 + (c div 64) mod 64,
            128 + c mod 64])"

definition encode_utf8 :: "nat list \<Rightarrow> string" where
  "encode_utf8 u = map char_of (concat (map utf8_char u))"

text \<open>
  \<open>v == 'lit'\<close> for an ASCII literal: a \<open>str\<close> is compared byte by byte, a \<open>unicode\<close>
  string code point by code point (Python 2 decodes the literal as ASCII), and a value
  of any other type is not equal to a string.
\<close>

definition py_eq_literal :: "pyval \<Rightarrow> string \<Rightarrow> bool" where
  "py_eq_literal v lit =
     (case v of
        PyStr b \<Rightarrow> b = lit
      | PyUnicode u \<Rightarrow> u = map of_char lit
      | _ \<Rightarrow> False)"

subsection \<open>Dictionaries\<close>

text \<open>
  A dict is an association list with one pair per key: assignment replaces the value of
  a key in place or appends a new pair, \<open>del\<close> and subscription raise \<open>KeyError\<close> on a
  missing key, and iteration runs over the keys in list order.
\<close>

definition dict_setitem :: "('k \<times> 'v) list \<Rightarrow> 'k \<Rightarrow> 'v \<Rightarrow> ('k \<times> 'v) list" where
  "dict_setitem d k v = AList.update k v d"

definition dict_delitem :: "('k \<times> 'v) list \<Rightarrow> 'k \<Rightarrow> py_error + ('k \<times> 'v) list" where
  "dict_delitem d k = (if k \<in> fst ` set d then Inr (AList.delete k d) else Inl KeyError)"

definition dict_getitem :: "('k \<times> 'v) list \<Rightarrow> 'k \<Rightarrow> py_error + 'v" where
  "dict_getitem d k = (case map_of d k of None \<Rightarrow> Inl KeyError | Some v \<Rightarrow> Inr v)"

definition dict_keys :: "('k \<times> 'v) list \<Rightarrow> 'k list" where
  "dict_keys d = map fst d"

subsection \<open>os.path.splitext\<close>

text \<open>
  \<open>p.rfind(c)\<close> for a single character: the highest index at which \<open>c\<close> occurs, or
  \<open>-1\<close>. The scan keeps the index of the latest occurrence seen.
\<close>

fun rfind_aux :: "'a list \<Rightarrow> 'a \<Rightarrow> int \<Rightarrow> int \<Rightarrow> int" where
  "rfind_aux [] c i found = found"
| "rfind_aux (x # xs) c i found = rfind_aux xs c (i + 1) (if x = c then i else found)"

definition rfind :: "'a list \<Rightarrow> 'a \<Rightarrow> int" where
  "rfind p c = rfind_aux p c 0 (- 1)"

text \<open>
  The \<open>while\<close> loop of \<open>genericpath._splitext\<close> (Python 2.6 and later), which skips the
  leading dots of the file name: the path is split at \<open>dotIndex\<close> as soon as a character
  other than the dot is met before it. The loop runs with
  \<open>0 \<le> filenameIndex < dotIndex < len(p)\<close>, so \<open>p[filenameIndex]\<close> is always in range.
\<close>

function skip_leading_dots :: "'a list \<Rightarrow> 'a \<Rightarrow> int \<Rightarrow> int \<Rightarrow> 'a list \<times> 'a list" where
  "skip_leading_dots p extsep filenameIndex dotIndex =
     (if filenameIndex < dotIndex then
        (if p ! nat filenameIndex \<noteq> extsep then (take (nat dotIndex) p, drop (nat dotIndex) p)
         else skip_leading_dots p extsep (filenameIndex + 1) dotIndex)
      else (p, []))"
  by pat_completeness auto
termination
  by (relation "measure (\<lambda>(p, extsep, filenameIndex, dotIndex). nat (dotIndex - filenameIndex))")
    auto

definition splitext_generic :: "'a list \<Rightarrow> 'a \<Rightarrow> 'a option \<Rightarrow> 'a \<Rightarrow> 'a list \<times> 'a list" where
  "splitext_generic p sep altsep extsep =
     (let sepIndex = rfind p sep;
          sepIndex = (case altsep of
                        None \<Rightarrow> sepIndex
                      | Some a \<Rightarrow> max sepIndex (rfind p a));
          dotIndex = rfind p extsep
      in if dotIndex > sepIndex then skip_leading_dots p extsep (sepIndex + 1) dotIndex
         else (p, []))"

text \<open>
  \<open>os.path\<close> is \<open>posixpath\<close> (separator \<open>/\<close>) or \<open>ntpath\<close> (separator \<open>\\<close>, alternative
  separator \<open>/\<close>). A path is a \<open>str\<close> or a \<open>unicode\<close> string; for any other value
  \<open>splitext\<close> raises \<open>AttributeError\<close> at \<open>p.rfind\<close>.
\<close>

datatype os_name = Posix | Nt

definition os_path_splitext :: "os_name \<Rightarrow> pyval \<Rightarrow> py_error + pyval \<times> pyval" where
  "os_path_splitext os p =
     (case p of
        PyStr b \<Rightarrow>
          (let (f, e) = (case os of
                           Posix \<Rightarrow> splitext_generic b (CHR ''/'') None (CHR ''.'')
                         | Nt \<Rightarrow> splitext_generic b (CHR 0x5C) (Some (CHR ''/'')) (CHR ''.''))
           in Inr (PyStr f, PyStr e))
      | PyUnicode u \<Rightarrow>
          (let (f, e) = (case os of
                           Posix \<Rightarrow> splitext_generic u 47 None 46
                         | Nt \<Rightarrow> splitext_generic u 92 (Some 47) 46)
           in Inr (PyUnicode f, PyUnicode e))
      | _ \<Rightarrow> Inl AttributeError)"

text \<open>\<open>if e: e = e[1:]\<close> for a string \<open>e\<close>.\<close>

definition strip_first :: "pyval \<Rightarrow> pyval" where
  "strip_first e =
     (case e of
        PyStr b \<Rightarrow> if b \<noteq> [] then PyStr (drop 1 b) else e
      | PyUnicode u \<Rightarrow> if u \<noteq> [] then PyUnicode (drop 1 u) else e
      | _ \<Rightarrow> e)"

subsection \<open>Items and their translation\<close>

text \<open>The fields of an \<open>ItemInfo\<close> that \<open>make_item_dict\<close> reads.\<close>

record item_info =
  info_id :: int
  info_name :: pyval
  info_size :: pyval
  info_duration :: pyval
  info_file_type :: pyval
  info_video_path :: pyval

text \<open>
  The dict stored per item, with its six fixed keys \<open>name\<close>, \<open>size\<close>, \<open>duration\<close>,
  \<open>file_type\<close>, \<open>path\<close> and \<open>enclosure_format\<close>.
\<close>

record entry =
  entry_name :: pyval
  entry_size :: pyval
  entry_duration :: pyval
  entry_file_type :: pyval
  entry_path :: pyval
  entry_enclosure_format :: pyval

type_synonym daap_item = "(string \<times> pyval) list"

text \<open>The body of the \<open>for p, q in mapping\<close> loop: one wire attribute.\<close>

definition fixup_attribute :: "string \<Rightarrow> pyval \<Rightarrow> string \<times> pyval" where
  "fixup_attribute q v = (case v of PyUnicode u \<Rightarrow> (q, PyStr (encode_utf8 u)) | _ \<Rightarrow> (q, v))"

definition daap_item_fixup :: "int \<Rightarrow> entry \<Rightarrow> daap_item" where
  "daap_item_fixup item_id entry =
     (let mapping = [(entry_name, ''minm''), (entry_enclosure_format, ''asfm''),
                     (entry_size, ''assz''), (entry_duration, ''astm'')];
          daapitem = map (\<lambda>(p, q). fixup_attribute q (p entry)) mapping;
          daapitem = daapitem @ [(''miid'', PyInt item_id)];
          daapitem = (if py_eq_literal (entry_file_type entry) ''video''
                      then daapitem @ [(''aeMK'', PyConst DAAP_MEDIAKIND_VIDEO)]
                      else daapitem @ [(''aeMK'', PyConst DAAP_MEDIAKIND_AUDIO)])
      in daapitem)"

subsection \<open>The backend\<close>

record playlist_info =
  playlist_id :: int
  playlist_title :: pyval

record backend =
  items :: "(int \<times> entry) list"
  daapitems :: "(int \<times> daap_item) list"
  daap_playlists :: "(int \<times> daap_item) list"
  playlist_item_map :: "(int \<times> int list) list"

definition init_backend :: backend where
  "init_backend = \<lparr>items = [], daapitems = [], daap_playlists = [], playlist_item_map = []\<rparr>"

text \<open>
  \<open>make_item_dict\<close>, lines 195 to 199: the format extension of a path.
\<close>

definition enclosure_format_of :: "os_name \<Rightarrow> pyval \<Rightarrow> py_error + pyval" where
  "enclosure_format_of os path =
     (case os_path_splitext os path of
        Inl err \<Rightarrow> Inl err
      | Inr (f, e) \<Rightarrow> Inr (strip_first e))"

fun make_item_dict :: "os_name \<Rightarrow> backend \<Rightarrow> item_info list \<Rightarrow> py_error option \<times> backend" where
  "make_item_dict os s [] = (None, s)"
| "make_item_dict os s (x # xs) =
     (let name = info_name x;
          size = info_size x;
          duration = info_duration x;
          file_type = info_file_type x;
          path = info_video_path x
      in case enclosure_format_of os path of
           Inl err \<Rightarrow> (Some err, s)
         | Inr e \<Rightarrow>
             (let s1 = s\<lparr>items := dict_setitem (items s) (info_id x)
                         \<lparr>entry_name = name, entry_size = size, entry_duration = duration,
                          entry_file_type = file_type, entry_path = path,
                          entry_enclosure_format = e\<rparr>\<rparr>
              in case dict_getitem (items s1) (info_id x) of
                   Inl err \<Rightarrow> (Some err, s1)
                 | Inr en \<Rightarrow>
                     make_item_dict os
                       (s1\<lparr>daapitems := dict_setitem (daapitems s1) (info_id x)
                              (daap_item_fixup (info_id x) en)\<rparr>) xs))"

record item_list_message =
  message_items :: "item_info list"

record items_changed_message =
  message_added :: "item_info list"
  message_changed :: "item_info list"
  message_removed :: "item_info list"

definition handle_item_list :: "os_name \<Rightarrow> backend \<Rightarrow> item_list_message \<Rightarrow> py_error option \<times> backend" where
  "handle_item_list os s message = make_item_dict os s (message_items message)"

text \<open>The \<open>for x in message.removed\<close> loop of \<open>handle_items_changed\<close>.\<close>

fun delete_removed :: "backend \<Rightarrow> item_info list \<Rightarrow> py_error option \<times> backend" where
  "delete_removed s [] = (None, s)"
| "delete_removed s (x # xs) =
     (case dict_delitem (items s) (info_id x) of
        Inl err \<Rightarrow> (Some err, s)
      | Inr d \<Rightarrow>
          (let s1 = s\<lparr>items := d\<rparr>
           in case dict_delitem (daapitems s1) (info_id x) of
                Inl err \<Rightarrow> (Some err, s1)
              | Inr d' \<Rightarrow> delete_removed (s1\<lparr>daapitems := d'\<rparr>) xs))"

definition handle_items_changed ::
  "os_name \<Rightarrow> backend \<Rightarrow> items_changed_message \<Rightarrow> py_error option \<times> backend" where
  "handle_items_changed os s message =
     (case delete_removed s (message_removed message) of
        (Some err, s1) \<Rightarrow> (Some err, s1)
      | (None, s1) \<Rightarrow>
          (case make_item_dict os s1 (message_added message) of
             (Some err, s2) \<Rightarrow> (Some err, s2)
           | (None, s2) \<Rightarrow> make_item_dict os s2 (message_changed message)))"

fun make_daap_playlists :: "backend \<Rightarrow> playlist_info list \<Rightarrow> backend" where
  "make_daap_playlists s [] = s"
| "make_daap_playlists s (x # xs) =
     (let attributes = [fixup_attribute ''minm'' (playlist_title x),
                        fixup_attribute ''miid'' (PyInt (playlist_id x)),
                        fixup_attribute ''mper'' (PyInt (playlist_id x))];
          attributes = attributes @ [(''mpco'', PyInt 0)];
          attributes = attributes @ [(''mimc'', PyInt 0)]
      in make_daap_playlists
           (s\<lparr>daap_playlists := dict_setitem (daap_playlists s) (playlist_id x) attributes\<rparr>) xs)"

definition handle_playlist_added :: "backend \<Rightarrow> playlist_info list \<Rightarrow> py_error option \<times> backend" where
  "handle_playlist_added s added = (None, make_daap_playlists s added)"

fun handle_playlist_removed :: "backend \<Rightarrow> playlist_info list \<Rightarrow> py_error option \<times> backend" where
  "handle_playlist_removed s [] = (None, s)"
| "handle_playlist_removed s (x # xs) =
     (case dict_delitem (daap_playlists s) (playlist_id x) of
        Inl err \<Rightarrow> (Some err, s)
      | Inr d \<Rightarrow> handle_playlist_removed (s\<lparr>daap_playlists := d\<rparr>) xs)"

definition handle_playlist_changed :: "backend \<Rightarrow> playlist_info list \<Rightarrow> py_error option \<times> backend" where
  "handle_playlist_changed s changed =
     (case handle_playlist_removed s changed of
        (Some err, s1) \<Rightarrow> (Some err, s1)
      | (None, s1) \<Rightarrow> (None, make_daap_playlists s1 changed))"

subsection \<open>get\_items\<close>

text \<open>
  \<open>get_items\<close> returns the DAAP-item dict itself, or the list built by the
  comprehension \<open>[x for x in self.daapitems if x.id in playlist_item_map[playlist_id]]\<close>.
  There \<open>x\<close> ranges over the keys of the dict, which are the integer item ids, so the
  attribute access \<open>x.id\<close> raises \<open>AttributeError\<close>; and \<open>playlist_item_map\<close> is looked
  up as a global name, which the module does not define (\<open>NameError\<close>). The condition
  evaluates \<open>x.id\<close> first, then the name, then the subscript.
\<close>

datatype get_items_result = Daapitems "(int \<times> daap_item) list" | Item_list "int list"

definition getattr_id :: "int \<Rightarrow> py_error + int" where
  "getattr_id x = Inl AttributeError"

definition global_playlist_item_map :: "py_error + (int \<times> int list) list" where
  "global_playlist_item_map = Inl NameError"

definition get_items_condition :: "int \<Rightarrow> int \<Rightarrow> py_error + bool" where
  "get_items_condition pid x =
     (case getattr_id x of
        Inl err \<Rightarrow> Inl err
      | Inr i \<Rightarrow>
          (case global_playlist_item_map of
             Inl err \<Rightarrow> Inl err
           | Inr m \<Rightarrow>
               (case dict_getitem m pid of
                  Inl err \<Rightarrow> Inl err
                | Inr members \<Rightarrow> Inr (i \<in> set members))))"

fun get_items_comprehension :: "int \<Rightarrow> int list \<Rightarrow> py_error + int list" where
  "get_items_comprehension pid [] = Inr []"
| "get_items_comprehension pid (x # xs) =
     (case get_items_condition pid x of
        Inl err \<Rightarrow> Inl err
      | Inr b \<Rightarrow>
          (case get_items_comprehension pid xs of
             Inl err \<Rightarrow> Inl err
           | Inr r \<Rightarrow> Inr (if b then x # r else r)))"

text \<open>\<open>not playlist_id\<close> holds for \<open>None\<close> (the default) and for \<open>0\<close>.\<close>

definition get_items :: "backend \<Rightarrow> int option \<Rightarrow> py_error + get_items_result" where
  "get_items s pid =
     (case pid of
        None \<Rightarrow> Inr (Daapitems (daapitems s))
      | Some n \<Rightarrow>
          if n = 0 then Inr (Daapitems (daapitems s))
          else (case get_items_comprehension n (dict_keys (daapitems s)) of
                  Inl err \<Rightarrow> Inl err
                | Inr r \<Rightarrow> Inr (Item_list r)))"

text \<open>
  \<open>populate_playlists\<close>. The saved playlists (\<open>SavedPlaylist.make_view()\<close>) and the
  item ids of each playlist (\<open>PlaylistItemMap.playlist_view\<close>) come from the database
  and are parameters.
\<close>

fun populate_item_map :: "backend \<Rightarrow> (int \<Rightarrow> int list) \<Rightarrow> int list \<Rightarrow> backend" where
  "populate_item_map s playlist_view [] = s"
| "populate_item_map s playlist_view (pid # pids) =
     populate_item_map
       (s\<lparr>playlist_item_map := dict_setitem (playlist_item_map s) pid (playlist_view pid)\<rparr>)
       playlist_view pids"

definition populate_playlists :: "backend \<Rightarrow> playlist_info list \<Rightarrow> (int \<Rightarrow> int list) \<Rightarrow> backend" where
  "populate_playlists s saved playlist_view =
     (let s1 = make_daap_playlists s saved
      in populate_item_map s1 playlist_view (dict_keys (daap_playlists s1)))"

text \<open>
  The states of a backend: the empty one, and every state \<open>populate_playlists\<close> or a
  notification handler ends in, whether it returns or raises.
\<close>

inductive backend_reachable :: "os_name \<Rightarrow> backend \<Rightarrow> bool" where
  backend_init: "backend_reachable os init_backend"
| backend_item_list:
    "backend_reachable os s \<Longrightarrow> backend_reachable os (snd (handle_item_list os s m))"
| backend_items_changed:
    "backend_reachable os s \<Longrightarrow> backend_reachable os (snd (handle_items_changed os s c))"
| backend_playlist_added:
    "backend_reachable os s \<Longrightarrow> backend_reachable os (snd (handle_playlist_added s ps))"
| backend_playlist_changed:
    "backend_reachable os s \<Longrightarrow> backend_reachable os (snd (handle_playlist_changed s ps))"
| backend_playlist_removed:
    "backend_reachable os s \<Longrightarrow> backend_reachable os (snd (handle_playlist_removed s ps))"
| backend_populate:
    "backend_reachable os s \<Longrightarrow> backend_reachable os (populate_playlists s saved view)"

text \<open>
  The DAAP-item table holds, for every identifier, the translation of the catalog entry
  stored under it, and nothing else.
\<close>

definition backend_inv :: "backend \<Rightarrow> bool" where
  "backend_inv s = (\<forall>i. map_of (daapitems s) i = map_option (daap_item_fixup i) (map_of (items s) i))"

text \<open>Two items and the messages used to evaluate the handlers.\<close>

definition item_movie :: item_info where
  "item_movie = \<lparr>info_id = 1, info_name = PyUnicode (map of_char ''Movie''), info_size = PyInt 1000,
     info_duration = PyInt 60, info_file_type = PyUnicode (map of_char ''video''),
     info_video_path = PyStr ''/videos/movie.mp4''\<rparr>"

definition item_song :: item_info where
  "item_song = \<lparr>info_id = 2, info_name = PyStr ''Song'', info_size = PyInt 500,
     info_duration = PyNone, info_file_type = PyUnicode (map of_char ''audio''),
     info_video_path = PyStr ''/music/song''\<rparr>"

definition backend_one :: backend where
  "backend_one = snd (handle_item_list Posix init_backend \<lparr>message_items = [item_movie]\<rparr>)"

text \<open>A catalog entry with a given media kind.\<close>

definition entry_of_kind :: "pyval \<Rightarrow> entry" where
  "entry_of_kind k = \<lparr>entry_name = PyStr ''n'', entry_size = PyInt 1, entry_duration = PyNone,
     entry_file_type = k, entry_path = PyStr ''n'', entry_enclosure_format = PyStr ''''\<rparr>"

text \<open>Two playlists, and the backend after they were added.\<close>

definition playlist_mix :: playlist_info where
  "playlist_mix = \<lparr>playlist_id = 1, playlist_title = PyStr ''mix''\<rparr>"

definition playlist_jazz :: playlist_info where
  "playlist_jazz = \<lparr>playlist_id = 2, playlist_title = PyStr ''jazz''\<rparr>"

definition backend_playlists :: backend where
  "backend_playlists = snd (handle_playlist_added init_backend [playlist_mix, playlist_jazz])"

text \<open>
  The characters at which \<open>os.path\<close> separates path segments: \<open>sep\<close>, and \<open>altsep\<close>
  where there is one.
\<close>

definition is_separator :: "os_name \<Rightarrow> char \<Rightarrow> bool" where
  "is_separator os c = (case os of Posix \<Rightarrow> c = CHR ''/'' | Nt \<Rightarrow> c = CHR 0x5C \<or> c = CHR ''/'')"

text \<open>
  The derivation rule in the words of the specification, for a POSIX path: the final
  path segment is the text after the last \<open>/\<close>; the extension is the text after the last
  \<open>.\<close> of that segment, and empty when the segment has no \<open>.\<close>.
\<close>

definition spec_extension :: "string \<Rightarrow> string" where
  "spec_extension path =
     (let segment = rev (takeWhile (\<lambda>c. c \<noteq> CHR ''/'') (rev path))
      in if CHR ''.'' \<in> set segment
         then rev (takeWhile (\<lambda>c. c \<noteq> CHR ''.'') (rev segment))
         else [])"

section \<open>The HTTP-auth relay (lib/dl\_daemon/private/httpauth.py)\<close>

text \<open>
  The module's state: the next value of \<open>requestIdGenerator\<close> (\<open>itertools.count()\<close>,
  which starts at 0) and the dict \<open>waitingHTTPAuthCallbacks\<close>. A callback is an opaque
  handle; calling it and sending a command to the daemon are recorded, in order, in
  \<open>auth_trace\<close>. What a callback does when called is outside the model.
\<close>

datatype command =
    FindHTTPAuthCommand int string string
  | AskForHTTPAuthCommand int string string string

datatype auth_event = Command_sent command | Callback_called int nat string

record auth_state =
  requestIdGenerator :: int
  waitingHTTPAuthCallbacks :: "int \<rightharpoonup> nat"
  auth_trace :: "auth_event list"

definition init_auth :: auth_state where
  "init_auth = \<lparr>requestIdGenerator = 0, waitingHTTPAuthCallbacks = Map.empty, auth_trace = []\<rparr>"

definition handle_http_auth_response ::
  "auth_state \<Rightarrow> int \<Rightarrow> string \<Rightarrow> py_error option \<times> auth_state" where
  "handle_http_auth_response s ident authHeader =
     (case waitingHTTPAuthCallbacks s ident of
        None \<Rightarrow> (Some KeyError, s)
      | Some callback \<Rightarrow>
          (let s1 = s\<lparr>waitingHTTPAuthCallbacks := (waitingHTTPAuthCallbacks s)(ident := None)\<rparr>
           in (None, s1\<lparr>auth_trace := auth_trace s1 @ [Callback_called ident callback authHeader]\<rparr>)))"

definition find_http_auth ::
  "auth_state \<Rightarrow> nat \<Rightarrow> string \<Rightarrow> string \<Rightarrow> py_error option \<times> auth_state" where
  "find_http_auth s callback host path =
     (let ident = requestIdGenerator s;
          s1 = s\<lparr>requestIdGenerator := ident + 1\<rparr>;
          s2 = s1\<lparr>waitingHTTPAuthCallbacks := (waitingHTTPAuthCallbacks s1)(ident \<mapsto> callback)\<rparr>;
          c = FindHTTPAuthCommand ident host path
      in (None, s2\<lparr>auth_trace := auth_trace s2 @ [Command_sent c]\<rparr>))"

definition askForHTTPAuth ::
  "auth_state \<Rightarrow> nat \<Rightarrow> string \<Rightarrow> string \<Rightarrow> string \<Rightarrow> py_error option \<times> auth_state" where
  "askForHTTPAuth s callback host path authScheme =
     (let ident = requestIdGenerator s;
          s1 = s\<lparr>requestIdGenerator := ident + 1\<rparr>;
          s2 = s1\<lparr>waitingHTTPAuthCallbacks := (waitingHTTPAuthCallbacks s1)(ident \<mapsto> callback)\<rparr>;
          c = AskForHTTPAuthCommand ident host path authScheme
      in (None, s2\<lparr>auth_trace := auth_trace s2 @ [Command_sent c]\<rparr>))"

text \<open>A call of one of the module's three functions, and a sequence of such calls.\<close>

datatype auth_call =
    Find_http_auth nat string string
  | Ask_for_http_auth nat string string string
  | Handle_http_auth_response int string

fun auth_step :: "auth_state \<Rightarrow> auth_call \<Rightarrow> py_error option \<times> auth_state" where
  "auth_step s (Find_http_auth callback host path) = find_http_auth s callback host path"
| "auth_step s (Ask_for_http_auth callback host path authScheme) =
     askForHTTPAuth s callback host path authScheme"
| "auth_step s (Handle_http_auth_response ident authHeader) =
     handle_http_auth_response s ident authHeader"

fun auth_run :: "auth_state \<Rightarrow> auth_call list \<Rightarrow> auth_state" where
  "auth_run s [] = s"
| "auth_run s (c # cs) = auth_run (snd (auth_step s c)) cs"

text \<open>The identifier a command carries, and the calls of callbacks made for an identifier.\<close>

fun command_id :: "command \<Rightarrow> int" where
  "command_id (FindHTTPAuthCommand i host path) = i"
| "command_id (AskForHTTPAuthCommand i host path authScheme) = i"

fun event_id :: "auth_event \<Rightarrow> int" where
  "event_id (Command_sent c) = command_id c"
| "event_id (Callback_called i callback authHeader) = i"

fun is_call_for :: "int \<Rightarrow> auth_event \<Rightarrow> bool" where
  "is_call_for k (Callback_called i callback authHeader) = (i = k)"
| "is_call_for k (Command_sent c) = False"

definition calls_for :: "auth_state \<Rightarrow> int \<Rightarrow> auth_event list" where
  "calls_for s k = filter (is_call_for k) (auth_trace s)"

text \<open>
  What holds after any sequence of calls: every identifier in the table or in the trace
  is below the counter, an identifier whose callback was called is no longer in the
  table, and no identifier's callback was called twice.
\<close>

definition auth_inv :: "auth_state \<Rightarrow> bool" where
  "auth_inv s =
     ((\<forall>k. waitingHTTPAuthCallbacks s k \<noteq> None \<longrightarrow> k < requestIdGenerator s) \<and>
      (\<forall>ev \<in> set (auth_trace s). event_id ev < requestIdGenerator s) \<and>
      (\<forall>k. calls_for s k \<noteq> [] \<longrightarrow> waitingHTTPAuthCallbacks s k = None) \<and>
      (\<forall>k. length (calls_for s k) \<le> 1))"

text \<open>An identifier that was handed out and is no longer in the table.\<close>

definition retired :: "auth_state \<Rightarrow> int \<Rightarrow> bool" where
  "retired s k = (k < requestIdGenerator s \<and> waitingHTTPAuthCallbacks s k = None)"

text \<open>Two requests, then the responses to the first one.\<close>

definition two_requests :: "auth_call list" where
  "two_requests = [Find_http_auth 11 ''example.org'' ''/feed'',
     Ask_for_http_auth 12 ''example.org'' ''/feed'' ''Basic'']"

section \<open>Properties of the SharingManager\<close>

subsection \<open>The invariant and the effect of each method\<close>


lemma enable_discover_inv: "manager_inv s \<Longrightarrow> sharing s \<Longrightarrow> manager_inv (snd (enable_discover w s))"
  by (cases "install_mdns w") (simp_all add: manager_inv_def enable_discover_def Let_def)

lemma disable_discover_inv: "manager_inv s \<Longrightarrow> manager_inv (snd (disable_discover w s))"
  by (cases "mdns_ref s"; cases "uninstall_mdns w") (simp_all add: manager_inv_def disable_discover_def Let_def)

lemma disable_discover_fields:
  "sharing (snd (disable_discover w s)) = sharing s \<and> \<not> discoverable (snd (disable_discover w s))"
  by (cases "mdns_ref s"; cases "uninstall_mdns w") (simp_all add: disable_discover_def Let_def)

lemma enable_sharing_except_inv:
  "manager_inv s \<Longrightarrow> \<not> sharing s \<Longrightarrow> manager_inv (snd (enable_sharing_except e s))"
  by (simp add: manager_inv_def enable_sharing_except_def Let_def)

lemma enable_sharing_inv: "manager_inv s \<Longrightarrow> \<not> sharing s \<Longrightarrow> manager_inv (snd (enable_sharing w s))"
  by (cases "make_daap_server w"; cases "thread_start w")
     (simp_all add: manager_inv_def enable_sharing_def enable_sharing_except_def Let_def)

lemma disable_sharing_inv:
  "manager_inv s \<Longrightarrow> \<not> discoverable s \<Longrightarrow> manager_inv (snd (disable_sharing w s))"
  by (cases "server s"; cases "server_shutdown w"; cases "thread s"; cases "thread_join w")
     (simp_all add: manager_inv_def disable_sharing_def Let_def)

lemma twiddle_discoverable_inv: "manager_inv s \<Longrightarrow> manager_inv (snd (twiddle_discoverable w s))"
  by (simp add: twiddle_discoverable_def enable_discover_inv disable_discover_inv)

lemma twiddle_sharing_inv: "manager_inv s \<Longrightarrow> manager_inv (snd (twiddle_sharing w s))"
proof -
  assume inv: "manager_inv s"
  show ?thesis
  proof (cases "SHARE_MEDIA w = sharing s")
    case True
    then show ?thesis by (simp add: twiddle_sharing_def twiddle_discoverable_inv inv)
  next
    case False
    show ?thesis
    proof (cases "SHARE_MEDIA w")
      case True
      with False have off: "\<not> sharing s" by simp
      obtain r s1 where e: "enable_sharing w s = (r, s1)" by (cases "enable_sharing w s")
      have "manager_inv s1" using enable_sharing_inv [OF inv off, of w] e by simp
      then show ?thesis using True off e
        by (cases r) (simp_all add: twiddle_sharing_def twiddle_discoverable_inv)
    next
      case off: False
      obtain r s1 where d: "disable_discover w s = (r, s1)" by (cases "disable_discover w s")
      have i1: "manager_inv s1" using disable_discover_inv [OF inv, of w] d by simp
      have n1: "\<not> discoverable s1" using disable_discover_fields [of w s] d by simp
      obtain r2 s2 where d2: "disable_sharing w s1 = (r2, s2)" by (cases "disable_sharing w s1")
      have i2: "manager_inv s2" using disable_sharing_inv [OF i1 n1, of w] d2 by simp
      show ?thesis using False off d d2 i1 i2
        by (cases r; cases r2) (simp_all add: twiddle_sharing_def twiddle_discoverable_inv)
    qed
  qed
qed

lemma reachable_inv: "reachable s \<Longrightarrow> manager_inv s"
proof (induction rule: reachable.induct)
  case reachable_init
  show ?case by (simp add: manager_inv_def init_manager_def)
next
  case (reachable_twiddle s w)
  then show ?case by (simp add: twiddle_sharing_inv)
qed

lemma twiddle_stopped_noop: "\<not> sharing s \<Longrightarrow> \<not> SHARE_MEDIA w \<Longrightarrow> twiddle_sharing w s = (None, s)"
  by (simp add: twiddle_sharing_def twiddle_discoverable_def)


lemma disable_sharing_off: "\<not> sharing (snd (disable_sharing w s))"
  by (cases "server s"; cases "server_shutdown w"; cases "thread s"; cases "thread_join w")
     (simp_all add: disable_sharing_def Let_def)

lemma twiddle_sharing_off:
  "sharing s \<Longrightarrow> \<not> SHARE_MEDIA w \<Longrightarrow>
   twiddle_sharing w s =
     (case disable_discover w s of
        (Some e, s1) \<Rightarrow> (Some e, s1)
      | (None, s1) \<Rightarrow> disable_sharing w s1)"
proof -
  assume a: "sharing s" "\<not> SHARE_MEDIA w"
  obtain r s1 where d: "disable_discover w s = (r, s1)" by (cases "disable_discover w s")
  obtain r2 s2 where d2: "disable_sharing w s1 = (r2, s2)" by (cases "disable_sharing w s1")
  have "\<not> sharing s2" using disable_sharing_off [of w s1] d2 by simp
  then show ?thesis using a d d2
    by (cases r; cases r2) (simp_all add: twiddle_sharing_def twiddle_discoverable_def)
qed

lemma twiddle_sharing_on:
  "sharing s \<Longrightarrow> SHARE_MEDIA w \<Longrightarrow> twiddle_sharing w s = twiddle_discoverable w s"
  by (simp add: twiddle_sharing_def)

lemma disable_discover_ok:
  "mdns_ref s = Some r \<Longrightarrow> uninstall_mdns w = None \<Longrightarrow>
   disable_discover w s =
     (None, s\<lparr>discoverable := False, trace := trace s @ [Uninstall_mdns r], mdns_ref := None\<rparr>)"
  by (simp add: disable_discover_def Let_def)

lemma disable_sharing_ok:
  "server s = Some srv \<Longrightarrow> thread s = Some t \<Longrightarrow> server_shutdown w = None \<Longrightarrow>
   thread_join w = None \<Longrightarrow>
   disable_sharing w s =
     (None, s\<lparr>sharing := False, trace := trace s @ [Server_shutdown srv, Thread_join],
        thread := None, server := None\<rparr>)"
  by (simp add: disable_sharing_def Let_def)

lemma twiddle_off_order:
  assumes "manager_inv s" "sharing s" "discoverable s" "\<not> SHARE_MEDIA w"
    "uninstall_mdns w = None" "server_shutdown w = None" "thread_join w = None"
  shows "\<exists>r srv. twiddle_sharing w s = (None, s\<lparr>sharing := False, discoverable := False,
     mdns_ref := None, server := None, thread := None,
     trace := trace s @ [Uninstall_mdns r, Server_shutdown srv, Thread_join]\<rparr>)"
proof -
  from assms obtain r srv t where
    f: "mdns_ref s = Some r" "server s = Some srv" "thread s = Some t"
    by (auto simp: manager_inv_def)
  have "twiddle_sharing w s = (None, s\<lparr>sharing := False, discoverable := False,
     mdns_ref := None, server := None, thread := None,
     trace := trace s @ [Uninstall_mdns r, Server_shutdown srv, Thread_join]\<rparr>)"
    using assms(5-7) f
    by (simp add: twiddle_sharing_off [OF assms(2) assms(4)] disable_discover_ok [OF f(1)]
        disable_sharing_ok [of _ srv t])
  then show ?thesis by blast
qed

lemma twiddle_off_shutdown_after_withdraw:
  assumes "sharing s" "\<not> SHARE_MEDIA w"
  shows "\<exists>evs. trace (snd (twiddle_sharing w s)) = trace s @ evs \<and>
     (\<forall>srv. Server_shutdown srv \<in> set evs \<longrightarrow> (\<exists>r rest. evs = Uninstall_mdns r # rest))"
  unfolding twiddle_sharing_off [OF assms]
  by (cases "mdns_ref s"; cases "uninstall_mdns w"; cases "server s"; cases "server_shutdown w";
      cases "thread s"; cases "thread_join w")
     (simp_all add: disable_discover_def disable_sharing_def Let_def)


lemma enable_discover_frame:
  "sharing (snd (enable_discover w s)) = sharing s \<and>
   server (snd (enable_discover w s)) = server s \<and>
   thread (snd (enable_discover w s)) = thread s \<and>
   (\<exists>evs. trace (snd (enable_discover w s)) = trace s @ evs \<and> (\<forall>ev \<in> set evs. is_mdns_event ev))"
  by (cases "install_mdns w") (simp_all add: enable_discover_def Let_def is_mdns_event_def)

lemma disable_discover_frame:
  "sharing (snd (disable_discover w s)) = sharing s \<and>
   server (snd (disable_discover w s)) = server s \<and>
   thread (snd (disable_discover w s)) = thread s \<and>
   (\<exists>evs. trace (snd (disable_discover w s)) = trace s @ evs \<and> (\<forall>ev \<in> set evs. is_mdns_event ev))"
  by (cases "mdns_ref s"; cases "uninstall_mdns w")
     (simp_all add: disable_discover_def Let_def is_mdns_event_def)

lemma twiddle_discoverable_frame:
  "sharing (snd (twiddle_discoverable w s)) = sharing s \<and>
   server (snd (twiddle_discoverable w s)) = server s \<and>
   thread (snd (twiddle_discoverable w s)) = thread s \<and>
   (\<exists>evs. trace (snd (twiddle_discoverable w s)) = trace s @ evs \<and>
      (\<forall>ev \<in> set evs. is_mdns_event ev))"
  using enable_discover_frame [of w s] disable_discover_frame [of w s]
  by (simp add: twiddle_discoverable_def)

lemma twiddle_discoverable_same:
  "SHARE_DISCOVERABLE w = discoverable s \<Longrightarrow> twiddle_discoverable w s = (None, s)"
  by (simp add: twiddle_discoverable_def)

lemma twiddle_discoverable_returns:
  "manager_inv s \<Longrightarrow> install_mdns w = Inr r \<Longrightarrow> uninstall_mdns w = None \<Longrightarrow>
   fst (twiddle_discoverable w s) = None"
  by (cases "mdns_ref s")
     (auto simp add: manager_inv_def twiddle_discoverable_def enable_discover_def
        disable_discover_def Let_def)

lemma twiddle_discoverable_install:
  "\<exists>evs. trace (snd (twiddle_discoverable w s)) = trace s @ evs \<and>
     (\<forall>n. Install_mdns n \<in> set evs \<longrightarrow> sharing (snd (twiddle_discoverable w s)))"
  by (cases "install_mdns w"; cases "mdns_ref s"; cases "uninstall_mdns w")
     (simp_all add: twiddle_discoverable_def enable_discover_def disable_discover_def Let_def)

lemma enable_sharing_trace:
  "\<exists>evs. trace (snd (enable_sharing w s)) = trace s @ evs \<and> (\<forall>n. Install_mdns n \<notin> set evs)"
  by (cases "make_daap_server w"; cases "thread_start w")
     (simp_all add: enable_sharing_def enable_sharing_except_def Let_def)

lemma disable_discover_trace:
  "\<exists>evs. trace (snd (disable_discover w s)) = trace s @ evs \<and> (\<forall>n. Install_mdns n \<notin> set evs)"
  by (cases "mdns_ref s"; cases "uninstall_mdns w") (simp_all add: disable_discover_def Let_def)

lemma disable_sharing_trace:
  "\<exists>evs. trace (snd (disable_sharing w s)) = trace s @ evs \<and> (\<forall>n. Install_mdns n \<notin> set evs)"
  by (cases "server s"; cases "server_shutdown w"; cases "thread s"; cases "thread_join w")
     (simp_all add: disable_sharing_def Let_def)

lemma twiddle_install_needs_sharing:
  "\<exists>evs. trace (snd (twiddle_sharing w s)) = trace s @ evs \<and>
     (\<forall>n. Install_mdns n \<in> set evs \<longrightarrow> sharing (snd (twiddle_sharing w s)))"
proof (cases "SHARE_MEDIA w = sharing s")
  case True
  then show ?thesis using twiddle_discoverable_install [of w s] by (simp add: twiddle_sharing_def)
next
  case False
  show ?thesis
  proof (cases "SHARE_MEDIA w")
    case True
    with False have off: "\<not> sharing s" by simp
    obtain r s1 where e: "enable_sharing w s = (r, s1)" by (cases "enable_sharing w s")
    obtain evs1 where t1: "trace s1 = trace s @ evs1" "\<forall>n. Install_mdns n \<notin> set evs1"
      using enable_sharing_trace [of w s] e by auto
    obtain evs2 where t2: "trace (snd (twiddle_discoverable w s1)) = trace s1 @ evs2"
      "\<forall>n. Install_mdns n \<in> set evs2 \<longrightarrow> sharing (snd (twiddle_discoverable w s1))"
      using twiddle_discoverable_install [of w s1] by auto
    show ?thesis
    proof (cases "r = Inr True")
      case True
      then have "twiddle_sharing w s = twiddle_discoverable w s1"
        using \<open>SHARE_MEDIA w\<close> off e by (simp add: twiddle_sharing_def)
      then show ?thesis using t1 t2 by auto
    next
      case False
      then have "snd (twiddle_sharing w s) = s1"
        using \<open>SHARE_MEDIA w\<close> off e by (cases r) (auto simp add: twiddle_sharing_def)
      then show ?thesis using t1 by auto
    qed
  next
    case off: False
    with False have on: "sharing s" by simp
    obtain r s1 where d: "disable_discover w s = (r, s1)" by (cases "disable_discover w s")
    obtain evs1 where t1: "trace s1 = trace s @ evs1" "\<forall>n. Install_mdns n \<notin> set evs1"
      using disable_discover_trace [of w s] d by auto
    obtain evs2 where t2: "trace (snd (disable_sharing w s1)) = trace s1 @ evs2"
      "\<forall>n. Install_mdns n \<notin> set evs2"
      using disable_sharing_trace [of w s1] by auto
    show ?thesis
    proof (cases r)
      case None
      then have "twiddle_sharing w s = disable_sharing w s1"
        using d by (simp add: twiddle_sharing_off [OF on off])
      then show ?thesis using t1 t2 by auto
    next
      case (Some e)
      then have "snd (twiddle_sharing w s) = s1"
        using d by (simp add: twiddle_sharing_off [OF on off])
      then show ?thesis using t1 by auto
    qed
  qed
qed

lemma twiddle_world_on: "twiddle_sharing world_on init_manager = (None, manager_on)"
  by (simp add: twiddle_sharing_def twiddle_discoverable_def enable_sharing_def
      enable_discover_def world_on_def world_off_def init_manager_def manager_on_def Let_def)

lemma reachable_manager_on: "reachable manager_on"
  using reachable_twiddle [OF reachable_init, of world_on] by (simp add: twiddle_world_on)

subsection \<open>Bind failure\<close>

lemma enable_sharing_OSError:
  "make_daap_server w = Inl OSError \<Longrightarrow>
   enable_sharing w s =
     (Inr False, s\<lparr>sharing := False, trace := trace s @ [Make_daap_server (SHARE_NAME w)]\<rparr>)"
  by (simp add: enable_sharing_def enable_sharing_except_def Let_def)

text \<open>
  Claim C2. When \<open>libdaap.make_daap_server\<close> raises \<open>OSError\<close> (the bind failed),
  \<open>enable_sharing\<close> returns \<open>False\<close> with \<open>sharing\<close> false, the \<open>server\<close> and \<open>thread\<close>
  attributes are untouched (no thread is created or started: the only external call is
  the one failed \<open>make_daap_server\<close>), and a \<open>twiddle_sharing\<close> that wanted sharing on
  returns normally in that same state: one bind attempt, no retry, so a later
  configuration change may try again.
\<close>

theorem enable_sharing_bind_failure:
  assumes "make_daap_server w = Inl OSError"
  shows "fst (enable_sharing w s) = Inr False \<and>
         \<not> sharing (snd (enable_sharing w s)) \<and>
         server (snd (enable_sharing w s)) = server s \<and>
         thread (snd (enable_sharing w s)) = thread s \<and>
         trace (snd (enable_sharing w s)) = trace s @ [Make_daap_server (SHARE_NAME w)] \<and>
         (SHARE_MEDIA w \<and> \<not> sharing s \<longrightarrow>
            twiddle_sharing w s = (None, snd (enable_sharing w s)))"
  using assms by (simp add: enable_sharing_OSError twiddle_sharing_def)

theorem enable_sharing_bind_failure_witness:
  "make_daap_server world_bind_fails = Inl OSError \<and> SHARE_MEDIA world_bind_fails \<and>
   \<not> sharing init_manager \<and>
   fst (enable_sharing world_bind_fails init_manager) = Inr False \<and>
   thread (snd (enable_sharing world_bind_fails init_manager)) = None \<and>
   twiddle_sharing world_bind_fails init_manager =
     (None, init_manager\<lparr>trace := [Make_daap_server ''miro'']\<rparr>)"
proof -
  have h: "make_daap_server world_bind_fails = Inl OSError"
    by (simp add: world_bind_fails_def world_on_def world_off_def)
  have m: "SHARE_MEDIA world_bind_fails"
    by (simp add: world_bind_fails_def world_on_def world_off_def)
  have n: "\<not> sharing init_manager"
    by (simp add: init_manager_def)
  have e: "snd (enable_sharing world_bind_fails init_manager) =
      init_manager\<lparr>trace := [Make_daap_server ''miro'']\<rparr>"
    by (simp add: enable_sharing_def enable_sharing_except_def init_manager_def
        world_bind_fails_def world_on_def world_off_def)
  show ?thesis
    using h m n enable_sharing_bind_failure [OF h, of init_manager]
    by (simp add: e) (simp add: init_manager_def)
qed

subsection \<open>Discovery only with sharing\<close>

text \<open>
  Claim C1. (1) With sharing off and not wanted, \<open>twiddle_sharing\<close> returns at once and
  changes nothing, whatever the discoverable setting asks for. (2) In any call, an mDNS
  registration is only attempted when sharing is on at the end of the call. (3) When
  sharing is turned off, a server shutdown in the call's trace is always preceded by
  the mDNS withdrawal, which is the first external call made. (4) From a reachable
  state with sharing and discovery on, with the external calls succeeding, the call
  makes exactly: withdraw the registration, shut the server down, join the thread;
  and ends with both flags off. (5) In every reachable state, \<open>discoverable\<close> implies
  \<open>sharing\<close>.
\<close>

theorem discovery_needs_sharing:
  "(\<not> sharing s \<and> \<not> SHARE_MEDIA w \<longrightarrow> twiddle_sharing w s = (None, s)) \<and>
   (\<exists>evs. trace (snd (twiddle_sharing w s)) = trace s @ evs \<and>
      (\<forall>n. Install_mdns n \<in> set evs \<longrightarrow> sharing (snd (twiddle_sharing w s)))) \<and>
   (sharing s \<and> \<not> SHARE_MEDIA w \<longrightarrow>
      (\<exists>evs. trace (snd (twiddle_sharing w s)) = trace s @ evs \<and>
         (\<forall>srv. Server_shutdown srv \<in> set evs \<longrightarrow> (\<exists>r rest. evs = Uninstall_mdns r # rest)))) \<and>
   (reachable s \<and> sharing s \<and> discoverable s \<and> \<not> SHARE_MEDIA w \<and>
    uninstall_mdns w = None \<and> server_shutdown w = None \<and> thread_join w = None \<longrightarrow>
      (\<exists>r srv. twiddle_sharing w s =
         (None, s\<lparr>sharing := False, discoverable := False, mdns_ref := None,
            server := None, thread := None,
            trace := trace s @ [Uninstall_mdns r, Server_shutdown srv, Thread_join]\<rparr>))) \<and>
   (reachable s \<longrightarrow> discoverable s \<longrightarrow> sharing s)"
proof (intro conjI impI)
  show "twiddle_sharing w s = (None, s)" if "\<not> sharing s \<and> \<not> SHARE_MEDIA w"
    using that by (simp add: twiddle_stopped_noop)
  show "\<exists>evs. trace (snd (twiddle_sharing w s)) = trace s @ evs \<and>
      (\<forall>n. Install_mdns n \<in> set evs \<longrightarrow> sharing (snd (twiddle_sharing w s)))"
    by (rule twiddle_install_needs_sharing)
  show "\<exists>evs. trace (snd (twiddle_sharing w s)) = trace s @ evs \<and>
      (\<forall>srv. Server_shutdown srv \<in> set evs \<longrightarrow> (\<exists>r rest. evs = Uninstall_mdns r # rest))"
    if "sharing s \<and> \<not> SHARE_MEDIA w"
    using that twiddle_off_shutdown_after_withdraw [of s w] by simp
  show "\<exists>r srv. twiddle_sharing w s =
         (None, s\<lparr>sharing := False, discoverable := False, mdns_ref := None,
            server := None, thread := None,
            trace := trace s @ [Uninstall_mdns r, Server_shutdown srv, Thread_join]\<rparr>)"
    if "reachable s \<and> sharing s \<and> discoverable s \<and> \<not> SHARE_MEDIA w \<and>
        uninstall_mdns w = None \<and> server_shutdown w = None \<and> thread_join w = None"
    using that twiddle_off_order [of s w] reachable_inv [of s] by simp
  show "sharing s" if "reachable s" "discoverable s"
    using that reachable_inv [of s] by (simp add: manager_inv_def)
qed

theorem discovery_needs_sharing_witness:
  "reachable manager_on \<and> sharing manager_on \<and> discoverable manager_on \<and>
   \<not> sharing init_manager \<and> \<not> SHARE_MEDIA world_off \<and> uninstall_mdns world_off = None \<and>
   server_shutdown world_off = None \<and> thread_join world_off = None \<and>
   twiddle_sharing (world_off\<lparr>SHARE_DISCOVERABLE := True\<rparr>) init_manager = (None, init_manager) \<and>
   (\<exists>r srv. twiddle_sharing world_off manager_on =
      (None, manager_on\<lparr>sharing := False, discoverable := False, mdns_ref := None,
         server := None, thread := None,
         trace := trace manager_on @ [Uninstall_mdns r, Server_shutdown srv, Thread_join]\<rparr>)) \<and>
   trace (snd (twiddle_sharing world_off manager_on)) =
     [Make_daap_server ''miro'', Thread_start, Install_mdns ''miro'',
      Uninstall_mdns 3, Server_shutdown 7, Thread_join]"
proof -
  have a: "reachable manager_on \<and> sharing manager_on \<and> discoverable manager_on \<and>
      \<not> SHARE_MEDIA world_off \<and> uninstall_mdns world_off = None \<and>
      server_shutdown world_off = None \<and> thread_join world_off = None"
    by (simp add: reachable_manager_on) (simp add: manager_on_def world_off_def)
  have b: "\<not> sharing init_manager \<and> \<not> SHARE_MEDIA (world_off\<lparr>SHARE_DISCOVERABLE := True\<rparr>)"
    by (simp add: init_manager_def world_off_def)
  have c: "trace (snd (twiddle_sharing world_off manager_on)) =
     [Make_daap_server ''miro'', Thread_start, Install_mdns ''miro'',
      Uninstall_mdns 3, Server_shutdown 7, Thread_join]"
    by (simp add: twiddle_sharing_def twiddle_discoverable_def disable_discover_def
        disable_sharing_def manager_on_def world_off_def Let_def)
  from discovery_needs_sharing [of init_manager "world_off\<lparr>SHARE_DISCOVERABLE := True\<rparr>"] b
  have d: "twiddle_sharing (world_off\<lparr>SHARE_DISCOVERABLE := True\<rparr>) init_manager =
      (None, init_manager)"
    by blast
  from discovery_needs_sharing [of manager_on world_off] a
  have e: "\<exists>r srv. twiddle_sharing world_off manager_on =
      (None, manager_on\<lparr>sharing := False, discoverable := False, mdns_ref := None,
         server := None, thread := None,
         trace := trace manager_on @ [Uninstall_mdns r, Server_shutdown srv, Thread_join]\<rparr>)"
    by blast
  show ?thesis
    using a b c d e by simp
qed

subsection \<open>Reconciling while already running\<close>

text \<open>
  Claim C9. With sharing already on and wanted, \<open>twiddle_sharing\<close> leaves \<open>sharing\<close>, the
  server and the thread as they are and makes no external call other than mDNS ones
  (no new server, no thread start); when the discoverable setting also agrees with the
  state, it returns normally with the state unchanged. In a reachable state, with the
  mDNS calls succeeding, it always returns normally.
\<close>

theorem twiddle_sharing_already_running:
  assumes "sharing s" and "SHARE_MEDIA w"
  shows "sharing (snd (twiddle_sharing w s)) \<and>
     server (snd (twiddle_sharing w s)) = server s \<and>
     thread (snd (twiddle_sharing w s)) = thread s \<and>
     (\<exists>evs. trace (snd (twiddle_sharing w s)) = trace s @ evs \<and>
        (\<forall>ev \<in> set evs. is_mdns_event ev)) \<and>
     (SHARE_DISCOVERABLE w = discoverable s \<longrightarrow> twiddle_sharing w s = (None, s)) \<and>
     (reachable s \<and> install_mdns w = Inr r \<and> uninstall_mdns w = None \<longrightarrow>
        fst (twiddle_sharing w s) = None)"
  unfolding twiddle_sharing_on [OF assms]
  using twiddle_discoverable_frame [of w s] assms(1)
    twiddle_discoverable_same [of w s] twiddle_discoverable_returns [of s w r]
    reachable_inv [of s]
  by simp

theorem twiddle_sharing_already_running_witness:
  "sharing manager_on \<and> SHARE_MEDIA world_on \<and>
   SHARE_DISCOVERABLE world_on = discoverable manager_on \<and>
   twiddle_sharing world_on manager_on = (None, manager_on) \<and>
   server (snd (twiddle_sharing (world_on\<lparr>SHARE_DISCOVERABLE := False\<rparr>) manager_on)) = Some 7"
proof -
  have a: "sharing manager_on" "SHARE_MEDIA world_on"
    "SHARE_MEDIA (world_on\<lparr>SHARE_DISCOVERABLE := False\<rparr>)"
    "SHARE_DISCOVERABLE world_on = discoverable manager_on"
    "server manager_on = Some 7"
    by (simp_all add: manager_on_def world_on_def world_off_def)
  show ?thesis
    using a twiddle_sharing_already_running [OF a(1) a(2)]
      twiddle_sharing_already_running [OF a(1) a(3)]
    by simp
qed

subsection \<open>Withdrawing discovery twice\<close>

text \<open>
  Claim C6, evaluated on the code. From the state with sharing and discovery on, a first
  \<open>disable_discover\<close> withdraws the registration and deletes \<open>mdns_ref\<close>; a second one
  raises \<open>AttributeError\<close> when it reads the deleted attribute. The same happens inside
  \<open>twiddle_sharing\<close> when sharing is switched off while discovery is off: its
  unconditional \<open>disable_discover\<close> raises, \<open>disable_sharing\<close> is never reached, and
  the manager stays in the sharing state with no shutdown in the trace.
\<close>

theorem disable_discover_twice_raises:
  "disable_discover world_off manager_on =
     (None, manager_on\<lparr>discoverable := False,
        trace := trace manager_on @ [Uninstall_mdns 3], mdns_ref := None\<rparr>) \<and>
   disable_discover world_off (snd (disable_discover world_off manager_on)) =
     (Some AttributeError, snd (disable_discover world_off manager_on)) \<and>
   twiddle_sharing world_off (snd (disable_discover world_off manager_on)) =
     (Some AttributeError, snd (disable_discover world_off manager_on)) \<and>
   sharing (snd (disable_discover world_off manager_on))"
  by (simp add: twiddle_sharing_def disable_discover_def manager_on_def world_off_def Let_def)

section \<open>Properties of the backend\<close>

subsection \<open>Dictionaries and the consistency of the two item tables\<close>

lemma map_of_dict_setitem: "map_of (dict_setitem d k v) = (map_of d)(k \<mapsto> v)"
  by (simp add: dict_setitem_def update_conv')

lemma dict_getitem_setitem: "dict_getitem (dict_setitem d k v) k = Inr v"
  by (simp add: dict_getitem_def map_of_dict_setitem)

lemma dict_delitem_Inr:
  "dict_delitem d k = Inr d' \<Longrightarrow> map_of d k \<noteq> None \<and> map_of d' = (map_of d)(k := None)"
  by (auto simp: dict_delitem_def delete_conv' map_of_eq_None_iff split: if_splits)

lemma dict_delitem_Inl:
  "dict_delitem d k = Inl err \<Longrightarrow> err = KeyError \<and> map_of d k = None"
  by (auto simp: dict_delitem_def map_of_eq_None_iff split: if_splits)

lemma dict_delitem_cases:
  "dict_delitem d k = (if map_of d k = None then Inl KeyError else Inr (AList.delete k d))"
  by (simp add: dict_delitem_def map_of_eq_None_iff)

lemma make_item_dict_inv:
  "backend_inv s \<Longrightarrow> backend_inv (snd (make_item_dict os s xs))"
proof (induction xs arbitrary: s)
  case Nil
  then show ?case by simp
next
  case (Cons x xs)
  show ?case
  proof (cases "enclosure_format_of os (info_video_path x)")
    case (Inl err)
    then show ?thesis using Cons.prems by simp
  next
    case (Inr e)
    let ?en = "\<lparr>entry_name = info_name x, entry_size = info_size x,
        entry_duration = info_duration x, entry_file_type = info_file_type x,
        entry_path = info_video_path x, entry_enclosure_format = e\<rparr>"
    let ?s2 = "s\<lparr>items := dict_setitem (items s) (info_id x) ?en,
        daapitems := dict_setitem (daapitems s) (info_id x) (daap_item_fixup (info_id x) ?en)\<rparr>"
    have step: "make_item_dict os s (x # xs) = make_item_dict os ?s2 xs"
      using Inr by (simp add: dict_getitem_setitem Let_def)
    have "backend_inv ?s2"
      using Cons.prems by (simp add: backend_inv_def map_of_dict_setitem)
    then show ?thesis using Cons.IH [of ?s2] step by simp
  qed
qed

lemma delete_removed_inv:
  "backend_inv s \<Longrightarrow> backend_inv (snd (delete_removed s xs))"
proof (induction xs arbitrary: s)
  case Nil
  then show ?case by simp
next
  case (Cons x xs)
  show ?case
  proof (cases "map_of (items s) (info_id x)")
    case None
    then show ?thesis using Cons.prems by (simp add: dict_delitem_cases)
  next
    case (Some en)
    then have d: "map_of (daapitems s) (info_id x) \<noteq> None"
      using Cons.prems by (simp add: backend_inv_def)
    let ?s2 = "s\<lparr>items := AList.delete (info_id x) (items s),
        daapitems := AList.delete (info_id x) (daapitems s)\<rparr>"
    have step: "delete_removed s (x # xs) = delete_removed ?s2 xs"
      using Some d by (auto simp add: dict_delitem_cases Let_def)
    have "backend_inv ?s2"
      using Cons.prems by (simp add: backend_inv_def delete_conv')
    then show ?thesis using Cons.IH [of ?s2] step by simp
  qed
qed

lemma handle_items_changed_inv:
  "backend_inv s \<Longrightarrow> backend_inv (snd (handle_items_changed os s c))"
proof -
  assume inv: "backend_inv s"
  obtain r1 s1 where d: "delete_removed s (message_removed c) = (r1, s1)"
    by (cases "delete_removed s (message_removed c)")
  have i1: "backend_inv s1" using delete_removed_inv [OF inv, of "message_removed c"] d by simp
  obtain r2 s2 where a: "make_item_dict os s1 (message_added c) = (r2, s2)"
    by (cases "make_item_dict os s1 (message_added c)")
  have i2: "backend_inv s2" using make_item_dict_inv [OF i1, of os "message_added c"] a by simp
  have i3: "backend_inv (snd (make_item_dict os s2 (message_changed c)))"
    using make_item_dict_inv [OF i2] .
  show ?thesis using d a i1 i2 i3
    by (cases r1; cases r2) (simp_all add: handle_items_changed_def)
qed

lemma make_daap_playlists_items:
  "items (make_daap_playlists s xs) = items s \<and> daapitems (make_daap_playlists s xs) = daapitems s"
  by (induction xs arbitrary: s) (simp_all add: Let_def)

lemma handle_playlist_removed_items:
  "items (snd (handle_playlist_removed s xs)) = items s \<and>
   daapitems (snd (handle_playlist_removed s xs)) = daapitems s"
  by (induction xs arbitrary: s) (simp_all split: sum.splits)

lemma handle_playlist_changed_items:
  "items (snd (handle_playlist_changed s xs)) = items s \<and>
   daapitems (snd (handle_playlist_changed s xs)) = daapitems s"
  using handle_playlist_removed_items [of s xs]
  by (cases "handle_playlist_removed s xs")
     (auto simp: handle_playlist_changed_def make_daap_playlists_items split: option.splits)

lemma populate_item_map_items:
  "items (populate_item_map s v ks) = items s \<and> daapitems (populate_item_map s v ks) = daapitems s"
  by (induction ks arbitrary: s) simp_all

lemma populate_playlists_items:
  "items (populate_playlists s saved v) = items s \<and>
   daapitems (populate_playlists s saved v) = daapitems s"
  by (simp add: populate_playlists_def Let_def populate_item_map_items make_daap_playlists_items)

lemma backend_reachable_inv: "backend_reachable os s \<Longrightarrow> backend_inv s"
proof (induction rule: backend_reachable.induct)
  case (backend_init os)
  show ?case by (simp add: backend_inv_def init_backend_def)
next
  case (backend_item_list os s m)
  then show ?case by (simp add: handle_item_list_def make_item_dict_inv)
next
  case (backend_items_changed os s c)
  then show ?case by (simp add: handle_items_changed_inv)
next
  case (backend_playlist_added os s ps)
  then show ?case by (simp add: backend_inv_def handle_playlist_added_def make_daap_playlists_items)
next
  case (backend_playlist_changed os s ps)
  then show ?case by (simp add: backend_inv_def handle_playlist_changed_items)
next
  case (backend_playlist_removed os s ps)
  then show ?case by (simp add: backend_inv_def handle_playlist_removed_items)
next
  case (backend_populate os s saved view)
  then show ?case by (simp add: backend_inv_def populate_playlists_items)
qed

lemma backend_inv_keys: "backend_inv s \<Longrightarrow> fst ` set (daapitems s) = fst ` set (items s)"
proof -
  assume "backend_inv s"
  then have "dom (map_of (daapitems s)) = dom (map_of (items s))"
    by (auto simp: backend_inv_def dom_def)
  then show ?thesis by (simp add: dom_map_of_conv_image_fst)
qed

lemma backend_one_eval:
  "backend_one = \<lparr>items = [(1, \<lparr>entry_name = PyUnicode (map of_char ''Movie''), entry_size = PyInt 1000,
     entry_duration = PyInt 60, entry_file_type = PyUnicode (map of_char ''video''),
     entry_path = PyStr ''/videos/movie.mp4'', entry_enclosure_format = PyStr ''mp4''\<rparr>)],
   daapitems = [(1, [(''minm'', PyStr ''Movie''), (''asfm'', PyStr ''mp4''), (''assz'', PyInt 1000),
      (''astm'', PyInt 60), (''miid'', PyInt 1), (''aeMK'', PyConst DAAP_MEDIAKIND_VIDEO)])],
   daap_playlists = [], playlist_item_map = []\<rparr>"
  by code_simp

lemma backend_one_reachable: "backend_reachable Posix backend_one"
  unfolding backend_one_def by (rule backend_item_list [OF backend_init])

text \<open>
  Claim C4. In every state the backend can reach through \<open>handle_item_list\<close> and
  \<open>handle_items_changed\<close> (and the playlist handlers, which leave both tables alone),
  also after a handler that raised, the DAAP-item table has exactly the keys of the
  item table, and under every identifier it holds \<open>daap_item_fixup\<close> of the entry the
  item table holds now.
\<close>

theorem daapitems_consistent:
  "backend_reachable os s \<Longrightarrow>
   fst ` set (daapitems s) = fst ` set (items s) \<and>
   (\<forall>i. map_of (daapitems s) i = map_option (daap_item_fixup i) (map_of (items s) i))"
  using backend_reachable_inv [of os s] backend_inv_keys [of s] by (simp add: backend_inv_def)

theorem daapitems_consistent_witness:
  "backend_reachable Posix
     (snd (handle_items_changed Posix backend_one
        \<lparr>message_added = [item_song],
         message_changed = [item_movie\<lparr>info_name := PyStr ''Renamed''\<rparr>],
         message_removed = []\<rparr>)) \<and>
   map_of (daapitems (snd (handle_items_changed Posix backend_one
        \<lparr>message_added = [item_song],
         message_changed = [item_movie\<lparr>info_name := PyStr ''Renamed''\<rparr>],
         message_removed = []\<rparr>))) 1 =
     map_option (daap_item_fixup 1)
       (map_of (items (snd (handle_items_changed Posix backend_one
        \<lparr>message_added = [item_song],
         message_changed = [item_movie\<lparr>info_name := PyStr ''Renamed''\<rparr>],
         message_removed = []\<rparr>))) 1) \<and>
   map_of (daapitems (snd (handle_items_changed Posix backend_one
        \<lparr>message_added = [item_song],
         message_changed = [item_movie\<lparr>info_name := PyStr ''Renamed''\<rparr>],
         message_removed = []\<rparr>))) 1 =
     Some [(''minm'', PyStr ''Renamed''), (''asfm'', PyStr ''mp4''), (''assz'', PyInt 1000),
       (''astm'', PyInt 60), (''miid'', PyInt 1), (''aeMK'', PyConst DAAP_MEDIAKIND_VIDEO)]"
proof -
  let ?s = "snd (handle_items_changed Posix backend_one
        \<lparr>message_added = [item_song],
         message_changed = [item_movie\<lparr>info_name := PyStr ''Renamed''\<rparr>],
         message_removed = []\<rparr>)"
  have r: "backend_reachable Posix ?s"
    by (rule backend_items_changed [OF backend_one_reachable])
  have v: "map_of (daapitems ?s) 1 =
     Some [(''minm'', PyStr ''Renamed''), (''asfm'', PyStr ''mp4''), (''assz'', PyInt 1000),
       (''astm'', PyInt 60), (''miid'', PyInt 1), (''aeMK'', PyConst DAAP_MEDIAKIND_VIDEO)]"
    by code_simp
  from daapitems_consistent [OF r]
  have "map_of (daapitems ?s) 1 = map_option (daap_item_fixup 1) (map_of (items ?s) 1)"
    by blast
  with r v show ?thesis by simp
qed

lemma filter_aeMK:
  "[a \<leftarrow> daap_item_fixup item_id e. fst a = ''aeMK''] =
     [(''aeMK'', PyConst (if py_eq_literal (entry_file_type e) ''video''
                         then DAAP_MEDIAKIND_VIDEO else DAAP_MEDIAKIND_AUDIO))]"
  by (simp add: daap_item_fixup_def fixup_attribute_def split: pyval.splits)

lemma map_of_aeMK:
  "map_of (daap_item_fixup item_id e) ''aeMK'' =
     Some (PyConst (if py_eq_literal (entry_file_type e) ''video''
                    then DAAP_MEDIAKIND_VIDEO else DAAP_MEDIAKIND_AUDIO))"
  by (simp add: daap_item_fixup_def fixup_attribute_def split: pyval.splits)

subsection \<open>The media kind on the wire\<close>

text \<open>
  Claim C8. \<open>daap_item_fixup\<close> is a total function that adds exactly one \<open>aeMK\<close>
  attribute: \<open>DAAP_MEDIAKIND_VIDEO\<close> when the entry's \<open>file_type\<close> equals \<open>'video'\<close>
  (as a \<open>str\<close> or a \<open>unicode\<close> string), and \<open>DAAP_MEDIAKIND_AUDIO\<close> for \<open>'audio'\<close>
  and for every other value.
\<close>

theorem daap_item_fixup_media_kind:
  "[a \<leftarrow> daap_item_fixup item_id e. fst a = ''aeMK''] =
     [(''aeMK'', PyConst (if py_eq_literal (entry_file_type e) ''video''
                         then DAAP_MEDIAKIND_VIDEO else DAAP_MEDIAKIND_AUDIO))] \<and>
   (entry_file_type e = PyStr ''video'' \<or> entry_file_type e = PyUnicode (map of_char ''video'') \<longrightarrow>
      map_of (daap_item_fixup item_id e) ''aeMK'' = Some (PyConst DAAP_MEDIAKIND_VIDEO)) \<and>
   (entry_file_type e = PyStr ''audio'' \<or> entry_file_type e = PyUnicode (map of_char ''audio'') \<longrightarrow>
      map_of (daap_item_fixup item_id e) ''aeMK'' = Some (PyConst DAAP_MEDIAKIND_AUDIO)) \<and>
   (\<not> py_eq_literal (entry_file_type e) ''video'' \<longrightarrow>
      map_of (daap_item_fixup item_id e) ''aeMK'' = Some (PyConst DAAP_MEDIAKIND_AUDIO))"
  unfolding map_of_aeMK filter_aeMK
  by (auto simp: py_eq_literal_def)

theorem daap_item_fixup_media_kind_witness:
  "entry_file_type (entry_of_kind (PyStr ''video'')) = PyStr ''video'' \<and>
   map_of (daap_item_fixup 1 (entry_of_kind (PyStr ''video''))) ''aeMK'' =
     Some (PyConst DAAP_MEDIAKIND_VIDEO) \<and>
   entry_file_type (entry_of_kind (PyUnicode (map of_char ''audio''))) =
     PyUnicode (map of_char ''audio'') \<and>
   map_of (daap_item_fixup 1 (entry_of_kind (PyUnicode (map of_char ''audio'')))) ''aeMK'' =
     Some (PyConst DAAP_MEDIAKIND_AUDIO) \<and>
   \<not> py_eq_literal (entry_file_type (entry_of_kind (PyStr ''other''))) ''video'' \<and>
   map_of (daap_item_fixup 1 (entry_of_kind (PyStr ''other''))) ''aeMK'' =
     Some (PyConst DAAP_MEDIAKIND_AUDIO) \<and>
   \<not> py_eq_literal (entry_file_type (entry_of_kind PyNone)) ''video'' \<and>
   map_of (daap_item_fixup 1 (entry_of_kind PyNone)) ''aeMK'' =
     Some (PyConst DAAP_MEDIAKIND_AUDIO)"
proof -
  have a: "entry_file_type (entry_of_kind (PyStr ''video'')) = PyStr ''video''"
    "entry_file_type (entry_of_kind (PyUnicode (map of_char ''audio''))) =
       PyUnicode (map of_char ''audio'')"
    "\<not> py_eq_literal (entry_file_type (entry_of_kind (PyStr ''other''))) ''video''"
    "\<not> py_eq_literal (entry_file_type (entry_of_kind PyNone)) ''video''"
    by (simp_all add: entry_of_kind_def py_eq_literal_def)
  show ?thesis
    using a daap_item_fixup_media_kind [of 1 "entry_of_kind (PyStr ''video'')"]
      daap_item_fixup_media_kind [of 1 "entry_of_kind (PyUnicode (map of_char ''audio''))"]
      daap_item_fixup_media_kind [of 1 "entry_of_kind (PyStr ''other'')"]
      daap_item_fixup_media_kind [of 1 "entry_of_kind PyNone"]
    by blast
qed

subsection \<open>Removal\<close>

lemma keys_map_of: "k \<in> fst ` set d \<longleftrightarrow> map_of d k \<noteq> None"
  by (simp add: map_of_eq_None_iff)

lemma keys_delete: "fst ` set (AList.delete k d) = fst ` set d - {k}"
proof -
  have "dom (map_of (AList.delete k d)) = dom (map_of d) - {k}"
    by (simp add: delete_conv')
  then show ?thesis by (simp add: dom_map_of_conv_image_fst)
qed

lemma restrict_after_delete: "(m(k := None)) |` (- A) = m |` (- insert k A)"
  by (auto simp: restrict_map_def fun_eq_iff)

lemma handle_playlist_removed_absent:
  "map_of (daap_playlists s) (playlist_id x) = None \<Longrightarrow>
   handle_playlist_removed s (x # xs) = (Some KeyError, s)"
  by (simp add: dict_delitem_cases)

lemma handle_playlist_removed_present:
  "map_of (daap_playlists s) (playlist_id x) \<noteq> None \<Longrightarrow>
   handle_playlist_removed s (x # xs) =
     handle_playlist_removed
       (s\<lparr>daap_playlists := AList.delete (playlist_id x) (daap_playlists s)\<rparr>) xs"
  by (auto simp add: dict_delitem_cases)

lemma handle_playlist_removed_error:
  "fst (handle_playlist_removed s xs) = None \<or> fst (handle_playlist_removed s xs) = Some KeyError"
proof (induction xs arbitrary: s)
  case Nil
  show ?case by simp
next
  case (Cons x xs)
  show ?case
  proof (cases "map_of (daap_playlists s) (playlist_id x)")
    case None
    then show ?thesis by (simp add: handle_playlist_removed_absent del: handle_playlist_removed.simps)
  next
    case (Some a)
    then show ?thesis
      using Cons.IH by (simp add: handle_playlist_removed_present del: handle_playlist_removed.simps)
  qed
qed

lemma map_of_delete_restrict:
  "map_of (AList.delete k d) |` (- A) = map_of d |` (- insert k A)"
  by (auto simp: restrict_map_def fun_eq_iff delete_conv')

lemma ok_iff_step:
  "k \<in> K \<Longrightarrow>
   (distinct ks \<and> set ks \<subseteq> K - {k}) \<longleftrightarrow> (distinct (k # ks) \<and> set (k # ks) \<subseteq> K)"
  by auto

lemma handle_playlist_removed_ok_iff:
  "fst (handle_playlist_removed s xs) = None \<longleftrightarrow>
   distinct (map playlist_id xs) \<and> set (map playlist_id xs) \<subseteq> fst ` set (daap_playlists s)"
proof (induction xs arbitrary: s)
  case Nil
  show ?case by simp
next
  case (Cons x xs)
  show ?case
  proof (cases "map_of (daap_playlists s) (playlist_id x)")
    case None
    then have "playlist_id x \<notin> fst ` set (daap_playlists s)" by (simp add: keys_map_of)
    then show ?thesis
      using None by (simp add: handle_playlist_removed_absent del: handle_playlist_removed.simps)
  next
    case (Some a)
    let ?s2 = "s\<lparr>daap_playlists := AList.delete (playlist_id x) (daap_playlists s)\<rparr>"
    have k: "playlist_id x \<in> fst ` set (daap_playlists s)"
      using Some by (simp add: keys_map_of)
    have st: "handle_playlist_removed s (x # xs) = handle_playlist_removed ?s2 xs"
      using Some by (simp add: handle_playlist_removed_present del: handle_playlist_removed.simps)
    have "fst (handle_playlist_removed ?s2 xs) = None \<longleftrightarrow>
        distinct (map playlist_id xs) \<and>
        set (map playlist_id xs) \<subseteq> fst ` set (daap_playlists s) - {playlist_id x}"
      using Cons.IH [of ?s2] by (simp add: keys_delete)
    also have "\<dots> \<longleftrightarrow> distinct (map playlist_id (x # xs)) \<and>
        set (map playlist_id (x # xs)) \<subseteq> fst ` set (daap_playlists s)"
      using ok_iff_step [OF k, of "map playlist_id xs"] by simp
    finally show ?thesis by (simp only: st)
  qed
qed

lemma handle_playlist_removed_ok_result:
  "fst (handle_playlist_removed s xs) = None \<Longrightarrow>
   map_of (daap_playlists (snd (handle_playlist_removed s xs))) =
     map_of (daap_playlists s) |` (- set (map playlist_id xs))"
proof (induction xs arbitrary: s)
  case Nil
  show ?case by simp
next
  case (Cons x xs)
  show ?case
  proof (cases "map_of (daap_playlists s) (playlist_id x)")
    case None
    then show ?thesis
      using Cons.prems
      by (simp add: handle_playlist_removed_absent del: handle_playlist_removed.simps)
  next
    case (Some a)
    let ?s2 = "s\<lparr>daap_playlists := AList.delete (playlist_id x) (daap_playlists s)\<rparr>"
    have st: "handle_playlist_removed s (x # xs) = handle_playlist_removed ?s2 xs"
      using Some by (simp add: handle_playlist_removed_present del: handle_playlist_removed.simps)
    have ok2: "fst (handle_playlist_removed ?s2 xs) = None"
      using Cons.prems by (simp only: st)
    have "map_of (daap_playlists (snd (handle_playlist_removed ?s2 xs))) =
        map_of (daap_playlists ?s2) |` (- set (map playlist_id xs))"
      by (rule Cons.IH [OF ok2])
    also have "\<dots> = map_of (daap_playlists s) |` (- set (map playlist_id (x # xs)))"
      by (simp add: map_of_delete_restrict)
    finally show ?thesis by (simp only: st)
  qed
qed

lemma delete_removed_absent:
  "map_of (items s) (info_id x) = None \<Longrightarrow> delete_removed s (x # xs) = (Some KeyError, s)"
  by (simp add: dict_delitem_cases)

lemma delete_removed_present:
  "backend_inv s \<Longrightarrow> map_of (items s) (info_id x) \<noteq> None \<Longrightarrow>
   backend_inv (s\<lparr>items := AList.delete (info_id x) (items s),
        daapitems := AList.delete (info_id x) (daapitems s)\<rparr>) \<and>
   delete_removed s (x # xs) =
     delete_removed (s\<lparr>items := AList.delete (info_id x) (items s),
        daapitems := AList.delete (info_id x) (daapitems s)\<rparr>) xs"
  by (auto simp add: backend_inv_def dict_delitem_cases Let_def delete_conv')

lemma delete_removed_ok_iff:
  "backend_inv s \<Longrightarrow>
   fst (delete_removed s xs) = None \<longleftrightarrow>
   distinct (map info_id xs) \<and> set (map info_id xs) \<subseteq> fst ` set (items s)"
proof (induction xs arbitrary: s)
  case Nil
  show ?case by simp
next
  case (Cons x xs)
  show ?case
  proof (cases "map_of (items s) (info_id x)")
    case None
    then have "info_id x \<notin> fst ` set (items s)" by (simp add: keys_map_of)
    then show ?thesis
      using None by (simp add: delete_removed_absent del: delete_removed.simps)
  next
    case (Some a)
    then have k: "info_id x \<in> fst ` set (items s)" by (simp add: keys_map_of)
    let ?s2 = "s\<lparr>items := AList.delete (info_id x) (items s),
        daapitems := AList.delete (info_id x) (daapitems s)\<rparr>"
    from delete_removed_present [OF Cons.prems, of x xs] Some
    have i: "backend_inv ?s2" and st: "delete_removed s (x # xs) = delete_removed ?s2 xs"
      by simp_all
    have "fst (delete_removed ?s2 xs) = None \<longleftrightarrow>
        distinct (map info_id xs) \<and> set (map info_id xs) \<subseteq> fst ` set (items s) - {info_id x}"
      using Cons.IH [OF i] by (simp add: keys_delete)
    also have "\<dots> \<longleftrightarrow> distinct (map info_id (x # xs)) \<and>
        set (map info_id (x # xs)) \<subseteq> fst ` set (items s)"
      using ok_iff_step [OF k, of "map info_id xs"] by simp
    finally show ?thesis by (simp only: st)
  qed
qed

lemma delete_removed_ok_result:
  "backend_inv s \<Longrightarrow> fst (delete_removed s xs) = None \<Longrightarrow>
   map_of (items (snd (delete_removed s xs))) = map_of (items s) |` (- set (map info_id xs)) \<and>
   map_of (daapitems (snd (delete_removed s xs))) =
     map_of (daapitems s) |` (- set (map info_id xs))"
proof (induction xs arbitrary: s)
  case Nil
  show ?case by simp
next
  case (Cons x xs)
  show ?case
  proof (cases "map_of (items s) (info_id x)")
    case None
    then show ?thesis
      using Cons.prems by (simp add: delete_removed_absent del: delete_removed.simps)
  next
    case (Some a)
    let ?s2 = "s\<lparr>items := AList.delete (info_id x) (items s),
        daapitems := AList.delete (info_id x) (daapitems s)\<rparr>"
    from delete_removed_present [OF Cons.prems(1), of x xs] Some
    have i: "backend_inv ?s2" and st: "delete_removed s (x # xs) = delete_removed ?s2 xs"
      by simp_all
    have ok2: "fst (delete_removed ?s2 xs) = None"
      using Cons.prems(2) by (simp only: st)
    have "map_of (items (snd (delete_removed ?s2 xs))) =
          map_of (items ?s2) |` (- set (map info_id xs)) \<and>
        map_of (daapitems (snd (delete_removed ?s2 xs))) =
          map_of (daapitems ?s2) |` (- set (map info_id xs))"
      by (rule Cons.IH [OF i ok2])
    then have "map_of (items (snd (delete_removed ?s2 xs))) =
          map_of (items s) |` (- set (map info_id (x # xs))) \<and>
        map_of (daapitems (snd (delete_removed ?s2 xs))) =
          map_of (daapitems s) |` (- set (map info_id (x # xs)))"
      by (simp add: map_of_delete_restrict)
    then show ?thesis by (simp only: st)
  qed
qed

lemma handle_items_changed_absent:
  "map_of (items s) (info_id x) = None \<Longrightarrow> message_removed c = x # xs \<Longrightarrow>
   handle_items_changed os s c = (Some KeyError, s)"
  by (simp add: handle_items_changed_def delete_removed_absent del: delete_removed.simps)

text \<open>
  Claim C3, as stated, fails: removing a playlist, or an item, whose identifier is not in
  the table raises \<open>KeyError\<close>.
\<close>

theorem removal_not_idempotent:
  "handle_playlist_removed init_backend [\<lparr>playlist_id = 1, playlist_title = PyStr ''mix''\<rparr>] =
     (Some KeyError, init_backend) \<and>
   handle_items_changed Posix init_backend
     \<lparr>message_added = [], message_changed = [], message_removed = [item_movie]\<rparr> =
     (Some KeyError, init_backend)"
  by (simp add: handle_items_changed_def init_backend_def dict_delitem_def)

text \<open>
  Claim C3, amended. \<open>handle_playlist_removed\<close> returns normally exactly when the
  identifiers to remove are pairwise distinct and all present, and then the table is
  the old one without them; otherwise it raises \<open>KeyError\<close>, at once and with the
  state unchanged when the first identifier is absent. The \<open>removed\<close> loop of
  \<open>handle_items_changed\<close> does the same on both item tables in every reachable
  state, and \<open>handle_items_changed\<close> passes the \<open>KeyError\<close> on. Removal is not
  idempotent.
\<close>

theorem removal_of_present_ids:
  "(fst (handle_playlist_removed s removed) = None \<longleftrightarrow>
      distinct (map playlist_id removed) \<and>
      set (map playlist_id removed) \<subseteq> fst ` set (daap_playlists s)) \<and>
   (fst (handle_playlist_removed s removed) = None \<longrightarrow>
      map_of (daap_playlists (snd (handle_playlist_removed s removed))) =
        map_of (daap_playlists s) |` (- set (map playlist_id removed))) \<and>
   (fst (handle_playlist_removed s removed) \<noteq> None \<longrightarrow>
      fst (handle_playlist_removed s removed) = Some KeyError) \<and>
   (playlist_id p \<notin> fst ` set (daap_playlists s) \<longrightarrow>
      handle_playlist_removed s (p # removed) = (Some KeyError, s)) \<and>
   (backend_reachable os s \<longrightarrow>
      (fst (delete_removed s gone) = None \<longleftrightarrow>
         distinct (map info_id gone) \<and> set (map info_id gone) \<subseteq> fst ` set (items s)) \<and>
      (fst (delete_removed s gone) = None \<longrightarrow>
         map_of (items (snd (delete_removed s gone))) =
           map_of (items s) |` (- set (map info_id gone)) \<and>
         map_of (daapitems (snd (delete_removed s gone))) =
           map_of (daapitems s) |` (- set (map info_id gone)))) \<and>
   (info_id x \<notin> fst ` set (items s) \<and> message_removed c = x # gone \<longrightarrow>
      handle_items_changed os s c = (Some KeyError, s))"
proof (intro conjI impI)
  show "fst (handle_playlist_removed s removed) = None \<longleftrightarrow>
      distinct (map playlist_id removed) \<and>
      set (map playlist_id removed) \<subseteq> fst ` set (daap_playlists s)"
    by (rule handle_playlist_removed_ok_iff)
  show "map_of (daap_playlists (snd (handle_playlist_removed s removed))) =
        map_of (daap_playlists s) |` (- set (map playlist_id removed))"
    if "fst (handle_playlist_removed s removed) = None"
    using that by (rule handle_playlist_removed_ok_result)
  show "fst (handle_playlist_removed s removed) = Some KeyError"
    if "fst (handle_playlist_removed s removed) \<noteq> None"
    using that handle_playlist_removed_error [of s removed] by auto
  show "handle_playlist_removed s (p # removed) = (Some KeyError, s)"
    if "playlist_id p \<notin> fst ` set (daap_playlists s)"
    using that by (intro handle_playlist_removed_absent) (simp add: keys_map_of)
  show "fst (delete_removed s gone) = None \<longleftrightarrow>
         distinct (map info_id gone) \<and> set (map info_id gone) \<subseteq> fst ` set (items s)"
    if "backend_reachable os s"
    using that by (intro delete_removed_ok_iff backend_reachable_inv)
  show "map_of (items (snd (delete_removed s gone))) =
           map_of (items s) |` (- set (map info_id gone))"
    if "backend_reachable os s" "fst (delete_removed s gone) = None"
    using delete_removed_ok_result [OF backend_reachable_inv [OF that(1)] that(2)] by blast
  show "map_of (daapitems (snd (delete_removed s gone))) =
           map_of (daapitems s) |` (- set (map info_id gone))"
    if "backend_reachable os s" "fst (delete_removed s gone) = None"
    using delete_removed_ok_result [OF backend_reachable_inv [OF that(1)] that(2)] by blast
  show "handle_items_changed os s c = (Some KeyError, s)"
    if "info_id x \<notin> fst ` set (items s) \<and> message_removed c = x # gone"
  proof (rule handle_items_changed_absent)
    show "map_of (items s) (info_id x) = None" using that by (simp add: keys_map_of)
    show "message_removed c = x # gone" using that by simp
  qed
qed

lemma backend_playlists_eval:
  "backend_playlists = init_backend\<lparr>daap_playlists :=
     [(1, [(''minm'', PyStr ''mix''), (''miid'', PyInt 1), (''mper'', PyInt 1),
           (''mpco'', PyInt 0), (''mimc'', PyInt 0)]),
      (2, [(''minm'', PyStr ''jazz''), (''miid'', PyInt 2), (''mper'', PyInt 2),
           (''mpco'', PyInt 0), (''mimc'', PyInt 0)])]\<rparr>"
  by (simp add: backend_playlists_def handle_playlist_added_def playlist_mix_def
      playlist_jazz_def fixup_attribute_def dict_setitem_def init_backend_def)

theorem removal_of_present_ids_witness:
  "distinct (map playlist_id [playlist_mix]) \<and>
   set (map playlist_id [playlist_mix]) \<subseteq> fst ` set (daap_playlists backend_playlists) \<and>
   fst (handle_playlist_removed backend_playlists [playlist_mix]) = None \<and>
   map_of (daap_playlists (snd (handle_playlist_removed backend_playlists [playlist_mix]))) =
     map_of (daap_playlists backend_playlists) |` (- set (map playlist_id [playlist_mix])) \<and>
   playlist_id playlist_mix \<notin>
     fst ` set (daap_playlists (snd (handle_playlist_removed backend_playlists [playlist_mix]))) \<and>
   handle_playlist_removed (snd (handle_playlist_removed backend_playlists [playlist_mix]))
       [playlist_mix] =
     (Some KeyError, snd (handle_playlist_removed backend_playlists [playlist_mix])) \<and>
   backend_reachable Posix backend_one \<and>
   distinct (map info_id [item_movie]) \<and>
   set (map info_id [item_movie]) \<subseteq> fst ` set (items backend_one) \<and>
   fst (delete_removed backend_one [item_movie]) = None \<and>
   map_of (daapitems (snd (delete_removed backend_one [item_movie]))) =
     map_of (daapitems backend_one) |` (- set (map info_id [item_movie])) \<and>
   info_id item_song \<notin> fst ` set (items backend_one) \<and>
   handle_items_changed Posix backend_one
     \<lparr>message_added = [], message_changed = [], message_removed = [item_song]\<rparr> =
     (Some KeyError, backend_one)"
proof -
  let ?s1 = "snd (handle_playlist_removed backend_playlists [playlist_mix])"
  let ?c = "\<lparr>message_added = [], message_changed = [], message_removed = [item_song]\<rparr>"
  have a: "distinct (map playlist_id [playlist_mix]) \<and>
      set (map playlist_id [playlist_mix]) \<subseteq> fst ` set (daap_playlists backend_playlists)"
    by (simp add: backend_playlists_eval playlist_mix_def)
  have b: "playlist_id playlist_mix \<notin> fst ` set (daap_playlists ?s1)"
    by (simp add: backend_playlists_eval playlist_mix_def dict_delitem_def init_backend_def)
  have c: "distinct (map info_id [item_movie]) \<and>
      set (map info_id [item_movie]) \<subseteq> fst ` set (items backend_one)"
    by (simp add: backend_one_eval item_movie_def)
  have d: "info_id item_song \<notin> fst ` set (items backend_one) \<and>
      message_removed ?c = item_song # []"
    by (simp add: backend_one_eval item_song_def)
  note t1 = removal_of_present_ids [of backend_playlists "[playlist_mix]" playlist_mix Posix
      "[item_movie]" item_song ?c]
  note t2 = removal_of_present_ids [of ?s1 "[]" playlist_mix Posix "[]" item_song ?c]
  note t3 = removal_of_present_ids [of backend_one "[]" playlist_mix Posix "[item_movie]"
      item_song ?c]
  note t4 = removal_of_present_ids [of backend_one "[]" playlist_mix Posix "[]" item_song ?c]
  have e1: "fst (handle_playlist_removed backend_playlists [playlist_mix]) = None"
    using t1 a by blast
  have e2: "map_of (daap_playlists ?s1) =
      map_of (daap_playlists backend_playlists) |` (- set (map playlist_id [playlist_mix]))"
    using t1 e1 by blast
  have e3: "handle_playlist_removed ?s1 [playlist_mix] = (Some KeyError, ?s1)"
    using t2 b by blast
  have e4: "fst (delete_removed backend_one [item_movie]) = None"
    using t3 c backend_one_reachable by blast
  have e5: "map_of (daapitems (snd (delete_removed backend_one [item_movie]))) =
      map_of (daapitems backend_one) |` (- set (map info_id [item_movie]))"
    using t3 e4 backend_one_reachable by blast
  have e6: "handle_items_changed Posix backend_one ?c = (Some KeyError, backend_one)"
    using t4 d by blast
  show ?thesis
    using a b c d e1 e2 e3 e4 e5 e6 backend_one_reachable by blast
qed

subsection \<open>The members of a playlist\<close>

lemma get_items_comprehension_nonempty:
  "ks \<noteq> [] \<Longrightarrow> get_items_comprehension n ks = Inl AttributeError"
  by (cases ks) (simp_all add: get_items_condition_def getattr_id_def)

text \<open>
  Claim C5, as stated, fails: with one item stored, the query for a playlist identifier
  that is in neither playlist table raises instead of returning an empty collection.
\<close>

theorem get_items_unknown_playlist_raises:
  "map_of (playlist_item_map backend_one) 5 = None \<and>
   map_of (daap_playlists backend_one) 5 = None \<and>
   get_items backend_one (Some 5) = Inl AttributeError"
  by (simp add: backend_one_eval get_items_def dict_keys_def get_items_condition_def
      getattr_id_def)

text \<open>
  Claim C5, amended. For a playlist identifier that is not in the playlist index,
  \<open>get_items\<close> returns the empty list without raising when the DAAP-item table is
  empty; with the identifier \<open>None\<close> or \<open>0\<close> it returns the whole DAAP-item table; and
  with a non-zero unknown identifier and a non-empty table it raises.
\<close>

theorem get_items_unknown_playlist:
  "(daapitems s = [] \<and> n \<noteq> 0 \<longrightarrow> get_items s (Some n) = Inr (Item_list [])) \<and>
   get_items s None = Inr (Daapitems (daapitems s)) \<and>
   get_items s (Some 0) = Inr (Daapitems (daapitems s)) \<and>
   (daapitems s \<noteq> [] \<and> n \<noteq> 0 \<and> map_of (playlist_item_map s) n = None \<longrightarrow>
      (\<exists>err. get_items s (Some n) = Inl err))"
  by (simp add: get_items_def dict_keys_def get_items_comprehension_nonempty)

theorem get_items_unknown_playlist_witness:
  "daapitems init_backend = [] \<and> (5::int) \<noteq> 0 \<and>
   get_items init_backend (Some 5) = Inr (Item_list []) \<and>
   daapitems backend_one \<noteq> [] \<and> map_of (playlist_item_map backend_one) 5 = None \<and>
   (\<exists>err. get_items backend_one (Some 5) = Inl err) \<and>
   get_items backend_one (Some 0) = Inr (Daapitems (daapitems backend_one))"
proof -
  have a: "daapitems init_backend = [] \<and> (5::int) \<noteq> 0"
    by (simp add: init_backend_def)
  have b: "daapitems backend_one \<noteq> [] \<and> (5::int) \<noteq> 0 \<and>
      map_of (playlist_item_map backend_one) 5 = None"
    by (simp add: backend_one_eval)
  show ?thesis
    using a b get_items_unknown_playlist [of init_backend 5]
      get_items_unknown_playlist [of backend_one 5]
    by blast
qed

subsection \<open>The format extension\<close>

lemma rfind_aux_append:
  "rfind_aux (xs @ ys) c i f = rfind_aux ys c (i + int (length xs)) (rfind_aux xs c i f)"
  by (induction xs arbitrary: i f) (simp_all add: algebra_simps)

lemma rfind_aux_notin: "c \<notin> set ys \<Longrightarrow> rfind_aux ys c i f = f"
  by (induction ys arbitrary: i f) auto

lemma rfind_aux_bounds:
  "rfind_aux xs c i f = f \<or> (i \<le> rfind_aux xs c i f \<and> rfind_aux xs c i f < i + int (length xs))"
proof (induction xs arbitrary: i f)
  case Nil
  show ?case by simp
next
  case (Cons x xs)
  show ?case
    using Cons.IH [of "i + 1" "if x = c then i else f"] by auto
qed

lemma rfind_upper: "rfind xs c \<le> int (length xs) - 1"
  using rfind_aux_bounds [of xs c 0 "- 1"] by (auto simp: rfind_def)

lemma rfind_last: "c \<notin> set ys \<Longrightarrow> rfind (xs @ c # ys) c = int (length xs)"
  by (simp add: rfind_def rfind_aux_append rfind_aux_notin)

lemma rfind_notin_tail: "c \<notin> set ys \<Longrightarrow> rfind (xs @ ys) c = rfind xs c"
  by (simp add: rfind_def rfind_aux_append rfind_aux_notin)

lemma rfind_snoc: "rfind (xs @ [c]) c = int (length xs)"
  using rfind_last [of c "[]" xs] by simp

lemma rfind_Nil: "rfind [] c = - 1"
  by (simp add: rfind_def)

lemma skip_leading_dots_eq:
  "0 \<le> f \<Longrightarrow>
   skip_leading_dots p e f d =
     (if \<exists>k. f \<le> k \<and> k < d \<and> p ! nat k \<noteq> e then (take (nat d) p, drop (nat d) p)
      else (p, []))"
proof (induction p e f d rule: skip_leading_dots.induct)
  case (1 p extsep filenameIndex dotIndex)
  show ?case
  proof (cases "filenameIndex < dotIndex")
    case False
    then show ?thesis by (subst skip_leading_dots.simps) (auto simp del: skip_leading_dots.simps)
  next
    case lt: True
    show ?thesis
    proof (cases "p ! nat filenameIndex \<noteq> extsep")
      case True
      then have "\<exists>k. filenameIndex \<le> k \<and> k < dotIndex \<and> p ! nat k \<noteq> extsep"
        using lt by (intro exI [of _ filenameIndex]) simp
      then show ?thesis using lt True by (subst skip_leading_dots.simps) (simp del: skip_leading_dots.simps)
    next
      case False
      then have eq: "p ! nat filenameIndex = extsep" by simp
      have "(\<exists>k. filenameIndex \<le> k \<and> k < dotIndex \<and> p ! nat k \<noteq> extsep) \<longleftrightarrow>
          (\<exists>k. filenameIndex + 1 \<le> k \<and> k < dotIndex \<and> p ! nat k \<noteq> extsep)"
      proof
        assume "\<exists>k. filenameIndex \<le> k \<and> k < dotIndex \<and> p ! nat k \<noteq> extsep"
        then obtain k where k: "filenameIndex \<le> k" "k < dotIndex" "p ! nat k \<noteq> extsep" by blast
        then have "k \<noteq> filenameIndex" using eq by auto
        then have "filenameIndex + 1 \<le> k" using k(1) by simp
        then show "\<exists>k. filenameIndex + 1 \<le> k \<and> k < dotIndex \<and> p ! nat k \<noteq> extsep"
          using k by blast
      next
        assume "\<exists>k. filenameIndex + 1 \<le> k \<and> k < dotIndex \<and> p ! nat k \<noteq> extsep"
        then obtain k where "filenameIndex + 1 \<le> k" "k < dotIndex" "p ! nat k \<noteq> extsep" by blast
        then have "filenameIndex \<le> k \<and> k < dotIndex \<and> p ! nat k \<noteq> extsep" by simp
        then show "\<exists>k. filenameIndex \<le> k \<and> k < dotIndex \<and> p ! nat k \<noteq> extsep" by blast
      qed
      moreover have "skip_leading_dots p extsep filenameIndex dotIndex =
          skip_leading_dots p extsep (filenameIndex + 1) dotIndex"
        using lt eq by (subst skip_leading_dots.simps) (simp del: skip_leading_dots.simps)
      moreover have "0 \<le> filenameIndex + 1" using "1.prems" by simp
      ultimately show ?thesis using "1.IH" [OF lt] eq by (simp del: skip_leading_dots.simps)
    qed
  qed
qed

lemma stem_has_other:
  "(\<exists>k. int (length pre) \<le> k \<and> k < int (length pre) + int (length stem) \<and>
        (pre @ stem @ rest) ! nat k \<noteq> e) \<longleftrightarrow> (\<exists>c \<in> set stem. c \<noteq> e)"
proof
  assume "\<exists>k. int (length pre) \<le> k \<and> k < int (length pre) + int (length stem) \<and>
        (pre @ stem @ rest) ! nat k \<noteq> e"
  then obtain k where k: "int (length pre) \<le> k" "k < int (length pre) + int (length stem)"
    "(pre @ stem @ rest) ! nat k \<noteq> e" by blast
  define j where "j = nat k - length pre"
  have j: "j < length stem" "nat k = length pre + j" using k(1,2) by (auto simp: j_def)
  then have "(pre @ stem @ rest) ! nat k = stem ! j" by (simp add: nth_append)
  then show "\<exists>c \<in> set stem. c \<noteq> e" using k(3) j(1) by (metis nth_mem)
next
  assume "\<exists>c \<in> set stem. c \<noteq> e"
  then obtain j where j: "j < length stem" "stem ! j \<noteq> e" by (metis in_set_conv_nth)
  let ?k = "int (length pre) + int j"
  have "(pre @ stem @ rest) ! nat ?k = stem ! j"
    using j(1) by (simp add: nth_append nat_add_distrib)
  then show "\<exists>k. int (length pre) \<le> k \<and> k < int (length pre) + int (length stem) \<and>
        (pre @ stem @ rest) ! nat k \<noteq> e"
    using j by (intro exI [of _ ?k]) simp
qed

lemma rfind_last_char: "pre \<noteq> [] \<Longrightarrow> rfind pre (last pre) = int (length pre) - 1"
proof -
  assume ne: "pre \<noteq> []"
  have "rfind (butlast pre @ [last pre]) (last pre) = int (length (butlast pre))"
    by (rule rfind_snoc)
  moreover have "butlast pre @ [last pre] = pre"
    using ne by (rule append_butlast_last_id)
  moreover have "int (length (butlast pre)) = int (length pre) - 1"
    using ne by (cases pre rule: rev_cases) simp_all
  ultimately show ?thesis by (simp only:)
qed

lemma sep_index_None:
  assumes "sep \<notin> set seg" and "pre = [] \<or> last pre = sep"
  shows "rfind (pre @ seg) sep = int (length pre) - 1"
proof -
  have s: "rfind (pre @ seg) sep = rfind pre sep"
    using assms(1) by (rule rfind_notin_tail)
  show ?thesis
  proof (cases "pre = []")
    case True
    then show ?thesis unfolding s by (simp add: rfind_Nil)
  next
    case False
    then have "last pre = sep" using assms(2) by simp
    then show ?thesis unfolding s using rfind_last_char [OF False] by simp
  qed
qed

lemma sep_index_Some:
  assumes "sep \<notin> set seg" and "alt \<notin> set seg"
    and "pre = [] \<or> last pre = sep \<or> last pre = alt"
  shows "max (rfind (pre @ seg) sep) (rfind (pre @ seg) alt) = int (length pre) - 1"
proof -
  have s: "rfind (pre @ seg) sep = rfind pre sep"
    using assms(1) by (rule rfind_notin_tail)
  have a: "rfind (pre @ seg) alt = rfind pre alt"
    using assms(2) by (rule rfind_notin_tail)
  show ?thesis
  proof (cases "pre = []")
    case True
    then show ?thesis unfolding s a by (simp add: rfind_Nil)
  next
    case False
    have up: "rfind pre sep \<le> int (length pre) - 1" "rfind pre alt \<le> int (length pre) - 1"
      by (rule rfind_upper)+
    have "rfind pre sep = int (length pre) - 1 \<or> rfind pre alt = int (length pre) - 1"
      using assms(3) False rfind_last_char [OF False] by auto
    then show ?thesis unfolding s a using up by linarith
  qed
qed

lemma sep_index:
  assumes "sep \<notin> set seg" and "\<forall>a. altsep = Some a \<longrightarrow> a \<notin> set seg"
    and "pre = [] \<or> last pre = sep \<or> altsep = Some (last pre)"
  shows "(case altsep of None \<Rightarrow> rfind (pre @ seg) sep
          | Some a \<Rightarrow> max (rfind (pre @ seg) sep) (rfind (pre @ seg) a)) = int (length pre) - 1"
proof (cases altsep)
  case None
  then show ?thesis using sep_index_None [OF assms(1)] assms(3) by simp
next
  case (Some b)
  have "b \<notin> set seg" using assms(2) Some by simp
  moreover have "pre = [] \<or> last pre = sep \<or> last pre = b" using assms(3) Some by auto
  ultimately show ?thesis using sep_index_Some [OF assms(1), of b pre] Some by simp
qed

lemma splitext_generic_no_dot:
  assumes "sep \<notin> set seg" and "\<forall>a. altsep = Some a \<longrightarrow> a \<notin> set seg"
    and "pre = [] \<or> last pre = sep \<or> altsep = Some (last pre)"
    and "extsep \<notin> set seg"
  shows "splitext_generic (pre @ seg) sep altsep extsep = (pre @ seg, [])"
proof -
  have "rfind (pre @ seg) extsep = rfind pre extsep"
    using assms(4) by (rule rfind_notin_tail)
  then have "rfind (pre @ seg) extsep \<le> int (length pre) - 1"
    using rfind_upper [of pre extsep] by simp
  then show ?thesis
    unfolding splitext_generic_def Let_def sep_index [OF assms(1-3)] by simp
qed

lemma splitext_generic_dot:
  assumes "sep \<notin> set (stem @ extsep # suffix)"
    and "\<forall>a. altsep = Some a \<longrightarrow> a \<notin> set (stem @ extsep # suffix)"
    and "pre = [] \<or> last pre = sep \<or> altsep = Some (last pre)"
    and "extsep \<notin> set suffix"
  shows "splitext_generic (pre @ stem @ extsep # suffix) sep altsep extsep =
     (if \<exists>c \<in> set stem. c \<noteq> extsep then (pre @ stem, extsep # suffix)
      else (pre @ stem @ extsep # suffix, []))"
proof -
  let ?p = "pre @ stem @ extsep # suffix"
  have d: "rfind ?p extsep = int (length pre) + int (length stem)"
    using rfind_last [OF assms(4), of "pre @ stem"] by simp
  have si: "(case altsep of None \<Rightarrow> rfind ?p sep
          | Some a \<Rightarrow> max (rfind ?p sep) (rfind ?p a)) = int (length pre) - 1"
    using sep_index [OF assms(1-3)] by simp
  have loop: "skip_leading_dots ?p extsep (int (length pre)) (int (length pre) + int (length stem)) =
      (if \<exists>c \<in> set stem. c \<noteq> extsep then (pre @ stem, extsep # suffix) else (?p, []))"
    using stem_has_other [of pre stem "extsep # suffix" extsep]
    by (simp add: skip_leading_dots_eq nat_add_distrib del: skip_leading_dots.simps)
  show ?thesis
    unfolding splitext_generic_def Let_def si d using loop
    by (simp del: skip_leading_dots.simps)
qed

section \<open>Properties of the HTTP-auth relay\<close>

lemma is_call_for_id: "is_call_for k ev \<Longrightarrow> event_id ev = k"
  by (cases ev) simp_all

lemma calls_for_event: "calls_for s k \<noteq> [] \<Longrightarrow> \<exists>ev \<in> set (auth_trace s). event_id ev = k"
proof -
  assume "calls_for s k \<noteq> []"
  then obtain ev where "ev \<in> set (filter (is_call_for k) (auth_trace s))"
    unfolding calls_for_def by (cases "filter (is_call_for k) (auth_trace s)") auto
  then show ?thesis using is_call_for_id by auto
qed

lemma find_http_auth_eq:
  "find_http_auth s callback host path =
     (None, s\<lparr>requestIdGenerator := requestIdGenerator s + 1,
        waitingHTTPAuthCallbacks := (waitingHTTPAuthCallbacks s)(requestIdGenerator s \<mapsto> callback),
        auth_trace := auth_trace s @
          [Command_sent (FindHTTPAuthCommand (requestIdGenerator s) host path)]\<rparr>)"
  by (simp add: find_http_auth_def Let_def)

lemma askForHTTPAuth_eq:
  "askForHTTPAuth s callback host path authScheme =
     (None, s\<lparr>requestIdGenerator := requestIdGenerator s + 1,
        waitingHTTPAuthCallbacks := (waitingHTTPAuthCallbacks s)(requestIdGenerator s \<mapsto> callback),
        auth_trace := auth_trace s @
          [Command_sent (AskForHTTPAuthCommand (requestIdGenerator s) host path authScheme)]\<rparr>)"
  by (simp add: askForHTTPAuth_def Let_def)

lemma handle_response_pending:
  "waitingHTTPAuthCallbacks s k = Some callback \<Longrightarrow>
   handle_http_auth_response s k authHeader =
     (None, s\<lparr>waitingHTTPAuthCallbacks := (waitingHTTPAuthCallbacks s)(k := None),
        auth_trace := auth_trace s @ [Callback_called k callback authHeader]\<rparr>)"
  by (simp add: handle_http_auth_response_def Let_def)

lemma handle_response_absent:
  "waitingHTTPAuthCallbacks s k = None \<Longrightarrow>
   handle_http_auth_response s k authHeader = (Some KeyError, s)"
  by (simp add: handle_http_auth_response_def)

lemma register_inv:
  assumes "auth_inv s" and "command_id c = requestIdGenerator s"
  shows "auth_inv (s\<lparr>requestIdGenerator := requestIdGenerator s + 1,
        waitingHTTPAuthCallbacks := (waitingHTTPAuthCallbacks s)(requestIdGenerator s \<mapsto> callback),
        auth_trace := auth_trace s @ [Command_sent c]\<rparr>)"
proof -
  have fresh: "calls_for s (requestIdGenerator s) = []"
  proof (rule ccontr)
    assume "calls_for s (requestIdGenerator s) \<noteq> []"
    then obtain ev where "ev \<in> set (auth_trace s)" "event_id ev = requestIdGenerator s"
      using calls_for_event by blast
    then show False using assms(1) by (auto simp: auth_inv_def)
  qed
  show ?thesis
    using assms fresh
    by (auto simp: auth_inv_def calls_for_def less_imp_le)
qed

lemma respond_inv:
  assumes "auth_inv s" and "waitingHTTPAuthCallbacks s k = Some callback"
  shows "auth_inv (s\<lparr>waitingHTTPAuthCallbacks := (waitingHTTPAuthCallbacks s)(k := None),
        auth_trace := auth_trace s @ [Callback_called k callback authHeader]\<rparr>)"
proof -
  have none: "calls_for s k = []"
    using assms by (auto simp: auth_inv_def)
  have lt: "k < requestIdGenerator s"
    using assms by (auto simp: auth_inv_def)
  show ?thesis
    using assms(1) none lt
    by (auto simp: auth_inv_def calls_for_def)
qed

lemma auth_step_inv: "auth_inv s \<Longrightarrow> auth_inv (snd (auth_step s c))"
proof (cases c)
  case (Find_http_auth callback host path)
  assume "auth_inv s"
  then show ?thesis
    using Find_http_auth register_inv [of s "FindHTTPAuthCommand (requestIdGenerator s) host path"]
    by (simp add: find_http_auth_eq)
next
  case (Ask_for_http_auth callback host path authScheme)
  assume "auth_inv s"
  then show ?thesis
    using Ask_for_http_auth
      register_inv [of s "AskForHTTPAuthCommand (requestIdGenerator s) host path authScheme"]
    by (simp add: askForHTTPAuth_eq)
next
  case (Handle_http_auth_response k authHeader)
  assume inv: "auth_inv s"
  show ?thesis
  proof (cases "waitingHTTPAuthCallbacks s k")
    case None
    then show ?thesis using inv Handle_http_auth_response by (simp add: handle_response_absent)
  next
    case (Some callback)
    then show ?thesis
      using inv Handle_http_auth_response respond_inv [OF inv Some]
      by (simp add: handle_response_pending)
  qed
qed

lemma auth_run_inv: "auth_inv s \<Longrightarrow> auth_inv (auth_run s cs)"
  by (induction cs arbitrary: s) (simp_all add: auth_step_inv)

lemma init_auth_inv: "auth_inv init_auth"
  by (simp add: auth_inv_def init_auth_def calls_for_def)

lemma auth_step_retired: "retired s k \<Longrightarrow> retired (snd (auth_step s c)) k"
proof (cases c)
  case (Find_http_auth callback host path)
  assume "retired s k"
  then show ?thesis using Find_http_auth by (simp add: find_http_auth_eq retired_def)
next
  case (Ask_for_http_auth callback host path authScheme)
  assume "retired s k"
  then show ?thesis using Ask_for_http_auth by (simp add: askForHTTPAuth_eq retired_def)
next
  case (Handle_http_auth_response j authHeader)
  assume "retired s k"
  then show ?thesis using Handle_http_auth_response
    by (cases "waitingHTTPAuthCallbacks s j")
       (simp_all add: handle_response_absent handle_response_pending retired_def)
qed

lemma auth_run_retired: "retired s k \<Longrightarrow> retired (auth_run s cs) k"
  by (induction cs arbitrary: s) (simp_all add: auth_step_retired)

lemma auth_step_counter: "requestIdGenerator s \<le> requestIdGenerator (snd (auth_step s c))"
proof (cases c)
  case (Handle_http_auth_response j authHeader)
  then show ?thesis
    by (cases "waitingHTTPAuthCallbacks s j")
       (simp_all add: handle_response_absent handle_response_pending)
qed (simp_all add: find_http_auth_eq askForHTTPAuth_eq)

lemma auth_run_counter: "requestIdGenerator s \<le> requestIdGenerator (auth_run s cs)"
proof (induction cs arbitrary: s)
  case Nil
  show ?case by simp
next
  case (Cons c cs)
  have "requestIdGenerator s \<le> requestIdGenerator (snd (auth_step s c))"
    by (rule auth_step_counter)
  also have "\<dots> \<le> requestIdGenerator (auth_run (snd (auth_step s c)) cs)"
    by (rule Cons.IH)
  finally show ?case by simp
qed

lemma second_response_fails:
  assumes "auth_inv s" and "waitingHTTPAuthCallbacks s k = Some callback"
  shows "handle_http_auth_response (auth_run (snd (handle_http_auth_response s k h)) later) k h' =
     (Some KeyError, auth_run (snd (handle_http_auth_response s k h)) later)"
proof -
  have "k < requestIdGenerator s" using assms by (auto simp: auth_inv_def)
  then have "retired (snd (handle_http_auth_response s k h)) k"
    using assms(2) by (simp add: handle_response_pending retired_def)
  then have "retired (auth_run (snd (handle_http_auth_response s k h)) later) k"
    by (rule auth_run_retired)
  then show ?thesis by (simp add: retired_def handle_response_absent)
qed

lemma fresh_identifier:
  assumes "auth_inv s"
  shows "waitingHTTPAuthCallbacks s (requestIdGenerator s) = None \<and>
     (\<forall>ev \<in> set (auth_trace s). event_id ev \<noteq> requestIdGenerator s)"
proof -
  have "waitingHTTPAuthCallbacks s (requestIdGenerator s) = None"
  proof (rule ccontr)
    assume "waitingHTTPAuthCallbacks s (requestIdGenerator s) \<noteq> None"
    then have "requestIdGenerator s < requestIdGenerator s"
      using assms unfolding auth_inv_def by blast
    then show False by simp
  qed
  moreover have "\<forall>ev \<in> set (auth_trace s). event_id ev \<noteq> requestIdGenerator s"
    using assms by (auto simp: auth_inv_def)
  ultimately show ?thesis by simp
qed

text \<open>
  Claim C10. Let \<open>s\<close> be the module's state after any sequence of calls. The next
  identifier is fresh: it is not in the pending table and no command or callback call
  so far carried it. \<open>find_http_auth\<close> and \<open>askForHTTPAuth\<close> register the callback
  under it and advance the counter by one, and the counter never decreases.
  \<open>handle_http_auth_response\<close> for a pending identifier removes the entry and calls
  its callback; for an identifier that is not pending it raises \<open>KeyError\<close> and
  changes nothing. No identifier's callback has been called more than once, and after a
  response to a pending identifier, a second response to it raises \<open>KeyError\<close> whatever
  calls came in between.
\<close>

theorem http_auth_callback_once:
  assumes "s = auth_run init_auth calls"
  shows "waitingHTTPAuthCallbacks s (requestIdGenerator s) = None \<and>
     (\<forall>ev \<in> set (auth_trace s). event_id ev \<noteq> requestIdGenerator s) \<and>
     find_http_auth s callback host path =
       (None, s\<lparr>requestIdGenerator := requestIdGenerator s + 1,
          waitingHTTPAuthCallbacks := (waitingHTTPAuthCallbacks s)(requestIdGenerator s \<mapsto> callback),
          auth_trace := auth_trace s @
            [Command_sent (FindHTTPAuthCommand (requestIdGenerator s) host path)]\<rparr>) \<and>
     askForHTTPAuth s callback host path authScheme =
       (None, s\<lparr>requestIdGenerator := requestIdGenerator s + 1,
          waitingHTTPAuthCallbacks := (waitingHTTPAuthCallbacks s)(requestIdGenerator s \<mapsto> callback),
          auth_trace := auth_trace s @
            [Command_sent (AskForHTTPAuthCommand (requestIdGenerator s) host path authScheme)]\<rparr>) \<and>
     requestIdGenerator s \<le> requestIdGenerator (auth_run s later) \<and>
     (waitingHTTPAuthCallbacks s k = Some cb \<longrightarrow>
        handle_http_auth_response s k h =
          (None, s\<lparr>waitingHTTPAuthCallbacks := (waitingHTTPAuthCallbacks s)(k := None),
             auth_trace := auth_trace s @ [Callback_called k cb h]\<rparr>)) \<and>
     (waitingHTTPAuthCallbacks s k = None \<longrightarrow>
        handle_http_auth_response s k h = (Some KeyError, s)) \<and>
     length (calls_for s k) \<le> 1 \<and>
     (waitingHTTPAuthCallbacks s k = Some cb \<longrightarrow>
        handle_http_auth_response (auth_run (snd (handle_http_auth_response s k h)) later) k h' =
          (Some KeyError, auth_run (snd (handle_http_auth_response s k h)) later))"
proof -
  have inv: "auth_inv s"
    unfolding assms by (rule auth_run_inv [OF init_auth_inv])
  have once: "length (calls_for s k) \<le> 1"
    using inv unfolding auth_inv_def by blast
  show ?thesis
    using fresh_identifier [OF inv] once second_response_fails [OF inv, of k cb h later h']
      auth_run_counter [of s later]
    by (simp add: find_http_auth_eq askForHTTPAuth_eq handle_response_pending
        handle_response_absent)
qed

lemma two_requests_eval:
  "auth_run init_auth two_requests =
     \<lparr>requestIdGenerator = 2,
      waitingHTTPAuthCallbacks = [0 \<mapsto> 11, 1 \<mapsto> 12],
      auth_trace = [Command_sent (FindHTTPAuthCommand 0 ''example.org'' ''/feed''),
        Command_sent (AskForHTTPAuthCommand 1 ''example.org'' ''/feed'' ''Basic'')]\<rparr>"
  by (simp add: two_requests_def find_http_auth_eq askForHTTPAuth_eq init_auth_def)

theorem http_auth_callback_once_witness:
  "waitingHTTPAuthCallbacks (auth_run init_auth two_requests) 0 = Some 11 \<and>
   waitingHTTPAuthCallbacks (auth_run init_auth two_requests) 2 = None \<and>
   handle_http_auth_response (auth_run init_auth two_requests) 0 ''Basic abc'' =
     (None, (auth_run init_auth two_requests)
        \<lparr>waitingHTTPAuthCallbacks :=
           (waitingHTTPAuthCallbacks (auth_run init_auth two_requests))(0 := None),
         auth_trace := auth_trace (auth_run init_auth two_requests) @
           [Callback_called 0 11 ''Basic abc'']\<rparr>) \<and>
   handle_http_auth_response
       (auth_run (snd (handle_http_auth_response (auth_run init_auth two_requests) 0 ''Basic abc''))
          [Find_http_auth 13 ''example.org'' ''/other'']) 0 ''Basic xyz'' =
     (Some KeyError,
      auth_run (snd (handle_http_auth_response (auth_run init_auth two_requests) 0 ''Basic abc''))
        [Find_http_auth 13 ''example.org'' ''/other'']) \<and>
   length (calls_for (auth_run init_auth
      (two_requests @ [Handle_http_auth_response 0 ''Basic abc'',
         Handle_http_auth_response 0 ''Basic xyz''])) 0) \<le> 1"
proof -
  have a: "waitingHTTPAuthCallbacks (auth_run init_auth two_requests) 0 = Some 11"
    "waitingHTTPAuthCallbacks (auth_run init_auth two_requests) 2 = None"
    by (simp_all add: two_requests_eval)
  note t = http_auth_callback_once [OF refl, of two_requests _ _ _ _
      "[Find_http_auth 13 ''example.org'' ''/other'']" 0 11 "''Basic abc''" "''Basic xyz''"]
  note u = http_auth_callback_once [OF refl,
      of "two_requests @ [Handle_http_auth_response 0 ''Basic abc'',
         Handle_http_auth_response 0 ''Basic xyz'']" _ _ _ _ _ 0]
  have b: "handle_http_auth_response (auth_run init_auth two_requests) 0 ''Basic abc'' =
     (None, (auth_run init_auth two_requests)
        \<lparr>waitingHTTPAuthCallbacks :=
           (waitingHTTPAuthCallbacks (auth_run init_auth two_requests))(0 := None),
         auth_trace := auth_trace (auth_run init_auth two_requests) @
           [Callback_called 0 11 ''Basic abc'']\<rparr>)"
    using t a(1) by blast
  have c: "handle_http_auth_response
       (auth_run (snd (handle_http_auth_response (auth_run init_auth two_requests) 0 ''Basic abc''))
          [Find_http_auth 13 ''example.org'' ''/other'']) 0 ''Basic xyz'' =
     (Some KeyError,
      auth_run (snd (handle_http_auth_response (auth_run init_auth two_requests) 0 ''Basic abc''))
        [Find_http_auth 13 ''example.org'' ''/other''])"
    using t a(1) by blast
  have d: "length (calls_for (auth_run init_auth
      (two_requests @ [Handle_http_auth_response 0 ''Basic abc'',
         Handle_http_auth_response 0 ''Basic xyz''])) 0) \<le> 1"
    using u by blast
  show ?thesis using a b c d by blast
qed

end
